theory Spec2Isabelle
  imports Complex_Main "HOL-Library.Word" "HOL-Library.Sublist"
begin

section \<open>Values of the host language\<close>

text \<open>
  A JavaScript string is a sequence of 16-bit UTF-16 code units. String literals of the
  source are written with \<open>str\<close>, which maps each ASCII character to its code unit.
\<close>

type_synonym code_unit = "16 word"
type_synonym jsstring = "code_unit list"

definition str :: "string \<Rightarrow> jsstring" where
  "str s = map (\<lambda>c. of_char c) s"

text \<open>The exceptions the modelled code can raise.\<close>

datatype js_error = TypeError | URIError | InvalidCharacterError | NetworkError | DOMError

text \<open>
  \<open>xs[i]\<close> on an array: \<open>undefined\<close> (here \<open>None\<close>) when the index is out of range.
\<close>

definition at_index :: "'a list \<Rightarrow> nat \<Rightarrow> 'a option" where
  "at_index xs i = (if i < length xs then Some (xs ! i) else None)"

subsection \<open>Numbers\<close>

text \<open>
  A Number is a binary64 value: a finite value, held here by the exact value it has, an
  infinity, or NaN. The sign of a zero is not held; the operations below give the same
  results for both zeros. The type argument is \<open>real\<close>, and \<open>int\<close> for the Numbers
  that \<open>Math.floor\<close> returns.
\<close>

datatype 'a number = Finite 'a | PosInfinity | NegInfinity | NaN

text \<open>The number of binary digits of a natural number.\<close>

fun bits :: "nat \<Rightarrow> nat" where
  "bits n = (if n = 0 then 0 else Suc (bits (n div 2)))"

declare bits.simps [simp del]

text \<open>
  The binary exponent of a positive real \<open>x\<close>: the \<open>e\<close> with \<open>2\<^sup>e \<le> x < 2\<^sup>e\<^sup>+\<^sup>1\<close>.
\<close>

definition exponent :: "real \<Rightarrow> int" where
  "exponent x = (if 1 \<le> x then int (bits (nat \<lfloor>x\<rfloor>)) - 1 else - int (bits (nat \<lceil>1 / x\<rceil> - 1)))"

definition pow2 :: "int \<Rightarrow> real" where
  "pow2 e = (if 0 \<le> e then 2 ^ nat e else 1 / 2 ^ nat (- e))"

text \<open>The nearest integer; of two nearest integers the even one.\<close>

definition round_half_even :: "real \<Rightarrow> int" where
  "round_half_even z =
     (if frac z < 1 / 2 then \<lfloor>z\<rfloor>
      else if 1 / 2 < frac z then \<lfloor>z\<rfloor> + 1
      else if even \<lfloor>z\<rfloor> then \<lfloor>z\<rfloor> else \<lfloor>z\<rfloor> + 1)"

text \<open>
  The Number that a real is rounded to (round to nearest, ties to even): the significand
  has 53 binary digits, the exponent is at least \<open>-1022\<close>, and a result of \<open>2\<^sup>1\<^sup>0\<^sup>2\<^sup>4\<close> or
  more is Infinity.
\<close>

definition binary64_pos :: "real \<Rightarrow> real number" where
  "binary64_pos x =
     (let u = max (exponent x) (- 1022) - 52;
          r = of_int (round_half_even (x / pow2 u)) * pow2 u
      in if 2 ^ 1024 \<le> r then PosInfinity else Finite r)"

definition binary64 :: "real \<Rightarrow> real number" where
  "binary64 x =
     (if x = 0 then Finite 0
      else if 0 < x then binary64_pos x
      else case binary64_pos (- x) of Finite r \<Rightarrow> Finite (- r) | _ \<Rightarrow> NegInfinity)"

text \<open>\<open>Number(time)\<close> for a number or a string that denotes the integer \<open>time\<close>.\<close>

definition Number :: "int \<Rightarrow> real number" where
  "Number time = binary64 (of_int time)"

text \<open>\<open>x / y\<close> and \<open>x % y\<close> for a finite \<open>y > 0\<close>. The remainder is exact.\<close>

fun divide_by :: "real number \<Rightarrow> real \<Rightarrow> real number" where
  "divide_by (Finite x) y = binary64 (x / y)"
| "divide_by PosInfinity y = PosInfinity"
| "divide_by NegInfinity y = NegInfinity"
| "divide_by NaN y = NaN"

fun remainder_by :: "real number \<Rightarrow> real \<Rightarrow> real number" where
  "remainder_by (Finite x) y = Finite (sgn x * (\<bar>x\<bar> - y * of_int \<lfloor>\<bar>x\<bar> / y\<rfloor>))"
| "remainder_by PosInfinity y = NaN"
| "remainder_by NegInfinity y = NaN"
| "remainder_by NaN y = NaN"

fun Math_floor :: "real number \<Rightarrow> int number" where
  "Math_floor (Finite x) = Finite \<lfloor>x\<rfloor>"
| "Math_floor PosInfinity = PosInfinity"
| "Math_floor NegInfinity = NegInfinity"
| "Math_floor NaN = NaN"

text \<open>\<open>x < k\<close> for a finite \<open>k\<close>; a comparison with NaN is false.\<close>

fun less_than :: "int number \<Rightarrow> int \<Rightarrow> bool" where
  "less_than (Finite n) k = (n < k)"
| "less_than PosInfinity k = False"
| "less_than NegInfinity k = True"
| "less_than NaN k = False"

subsection \<open>Number to string\<close>

text \<open>The decimal digits of a natural number.\<close>

definition digit_char :: "nat \<Rightarrow> code_unit" where
  "digit_char d = of_nat (48 + d)"

fun natToString :: "nat \<Rightarrow> jsstring" where
  "natToString n = (if n < 10 then [digit_char n] else natToString (n div 10) @ [digit_char (n mod 10)])"

declare natToString.simps [simp del]

definition ndigits :: "nat \<Rightarrow> nat" where
  "ndigits n = length (natToString n)"

text \<open>
  The string of a positive integer-valued Number \<open>x\<close> has the digits of the integer
  with the fewest significant digits that is rounded to \<open>x\<close>, the one nearest to \<open>x\<close>
  when there are several (the even one of two). With \<open>k\<close> significant digits the
  integers to try are the multiples of \<open>10\<^sup>d\<^sup>-\<^sup>k\<close> next to \<open>x\<close>, where \<open>d\<close> is the number
  of digits of \<open>x\<close>; 17 digits always suffice.
\<close>

definition candidates :: "nat \<Rightarrow> nat \<Rightarrow> nat list" where
  "candidates x k =
     (let p = 10 ^ (ndigits x - k); lo = x div p * p; hi = lo + p
      in filter (\<lambda>v. binary64 (real v) = Finite (real x))
           (if x - lo < hi - x \<or> (x - lo = hi - x \<and> even (x div p)) then [lo, hi] else [hi, lo]))"

definition shortest :: "nat \<Rightarrow> nat" where
  "shortest x = (case concat (map (candidates x) [1..<18]) of [] \<Rightarrow> x | v # vs \<Rightarrow> v)"

fun strip_zeros :: "nat \<Rightarrow> nat" where
  "strip_zeros n = (if n = 0 then 0 else if n mod 10 = 0 then strip_zeros (n div 10) else n)"

declare strip_zeros.simps [simp del]

text \<open>
  Up to 21 digits the integer is written out; beyond, one digit, the other significant
  digits after a point, and the exponent.
\<close>

definition positiveToString :: "nat \<Rightarrow> jsstring" where
  "positiveToString x =
     (let v = shortest x; ds = natToString (strip_zeros v)
      in if ndigits v \<le> 21 then natToString v
         else if length ds = 1 then ds @ str ''e+'' @ natToString (ndigits v - 1)
         else [hd ds] @ str ''.'' @ tl ds @ str ''e+'' @ natToString (ndigits v - 1))"

text \<open>\<open>`${x}`\<close> for an integer-valued Number.\<close>

fun numberToString :: "int number \<Rightarrow> jsstring" where
  "numberToString (Finite n) =
     (if n = 0 then str ''0''
      else if n < 0 then str ''-'' @ positiveToString (nat (- n))
      else positiveToString (nat n))"
| "numberToString PosInfinity = str ''Infinity''"
| "numberToString NegInfinity = str ''-Infinity''"
| "numberToString NaN = str ''NaN''"

section \<open>formatTime\<close>

text \<open>
  \<^verbatim>\<open>
  const minutes = Math.floor(Number(time) / 60);
  const seconds = Math.floor(Number(time) % 60);
  return `${minutes}:${seconds < 10 ? `0${seconds}` : seconds}`;
  \<close>
  The argument is the integer that \<open>time\<close> denotes.
\<close>

definition formatTime :: "int \<Rightarrow> jsstring" where
  "formatTime time =
     (let minutes = Math_floor (divide_by (Number time) 60);
          seconds = Math_floor (remainder_by (Number time) 60)
      in numberToString minutes @ str '':'' @
         (if less_than seconds 10 then str ''0'' @ numberToString seconds
          else numberToString seconds))"

text \<open>The two-digit, zero-padded rendering of a number below 100.\<close>

definition two_digits :: "nat \<Rightarrow> jsstring" where
  "two_digits n = [digit_char (n div 10), digit_char (n mod 10)]"

section \<open>getImage\<close>

text \<open>
  An entry of an image list or of a download-link list; the code reads its \<open>link\<close>.
\<close>

record quality_link =
  link :: jsstring

datatype Image = ImageBool bool | ImageList "quality_link list"

text \<open>
  \<open>image[i].link\<close>: reading \<open>link\<close> of \<open>undefined\<close> raises a TypeError.
\<close>

definition link_at :: "quality_link list \<Rightarrow> nat \<Rightarrow> js_error + jsstring" where
  "link_at img i = (case at_index img i of None \<Rightarrow> Inl TypeError | Some v \<Rightarrow> Inr (link v))"

text \<open>
  The optional \<open>quality\<close> argument is \<open>None\<close> when it is not given.
\<close>

definition getImage :: "Image \<Rightarrow> jsstring option \<Rightarrow> js_error + jsstring" where
  "getImage img quality =
     (case img of
        ImageBool b \<Rightarrow> Inr (str ''/images/logo512.png'')
      | ImageList vs \<Rightarrow>
          if quality = Some (str ''large'') then link_at vs 2
          else if quality = Some (str ''medium'') then link_at vs 1
          else if quality = Some (str ''small'') then link_at vs 0
          else link_at vs 2)"

section \<open>String operations\<close>

text \<open>
  \<open>s.split(sep)\<close> with a string separator: the pieces between the successive
  non-overlapping occurrences of \<open>sep\<close>, found from left to right; \<open>cur\<close> is the
  piece being read. With the empty separator the string falls into its code units.
\<close>

function splitFrom :: "'a list \<Rightarrow> 'a list \<Rightarrow> 'a list \<Rightarrow> 'a list list" where
  "splitFrom sep cur s =
     (if s = [] then [cur]
      else if sep \<noteq> [] \<and> prefix sep s then cur # splitFrom sep [] (drop (length sep) s)
      else splitFrom sep (cur @ [hd s]) (tl s))"
  by pat_completeness auto
termination
  by (relation "measure (\<lambda>(sep, cur, s). length s)") auto

declare splitFrom.simps [simp del]

definition split :: "'a list \<Rightarrow> 'a list \<Rightarrow> 'a list list" where
  "split sep s = (if sep = [] then map (\<lambda>c. [c]) s else splitFrom sep [] s)"

text \<open>\<open>xs.join(sep)\<close> on an array of strings.\<close>

fun join :: "'a list \<Rightarrow> 'a list list \<Rightarrow> 'a list" where
  "join sep [] = []"
| "join sep [x] = x"
| "join sep (x # y # ys) = x @ sep @ join sep (y # ys)"

text \<open>
  \<open>s.replace(pat, rep)\<close> and \<open>s.replaceAll(pat, rep)\<close> with a string pattern and a
  replacement without \<open>$\<close>: the first occurrence, and every non-overlapping occurrence
  from left to right.
\<close>

fun replace :: "'a list \<Rightarrow> 'a list \<Rightarrow> 'a list \<Rightarrow> 'a list" where
  "replace pat rep [] = (if pat = [] then rep else [])"
| "replace pat rep (c # cs) =
     (if prefix pat (c # cs) then rep @ drop (length pat) (c # cs) else c # replace pat rep cs)"

function replaceAllFrom :: "'a list \<Rightarrow> 'a list \<Rightarrow> 'a list \<Rightarrow> 'a list" where
  "replaceAllFrom pat rep s =
     (if s = [] then []
      else if pat \<noteq> [] \<and> prefix pat s then rep @ replaceAllFrom pat rep (drop (length pat) s)
      else hd s # replaceAllFrom pat rep (tl s))"
  by pat_completeness auto
termination
  by (relation "measure (\<lambda>(pat, rep, s). length s)") auto

declare replaceAllFrom.simps [simp del]

definition replaceAll :: "'a list \<Rightarrow> 'a list \<Rightarrow> 'a list \<Rightarrow> 'a list" where
  "replaceAll pat rep s =
     (if pat = [] then rep @ concat (map (\<lambda>c. c # rep) s) else replaceAllFrom pat rep s)"

text \<open>
  \<open>s.toLowerCase()\<close>. A letter of ASCII is mapped to its lower case. Beyond ASCII, the
  two code units whose lower case has a letter of ASCII are mapped as Unicode maps
  them: U+212A (Kelvin sign) to \<open>k\<close>, and U+0130 (capital I with dot above) to \<open>i\<close>
  followed by U+0307. The other case mappings of Unicode lead from letters beyond ASCII
  to letters beyond ASCII; they are not part of this model, which leaves every other
  code unit as it is.
\<close>

definition lower_unit :: "code_unit \<Rightarrow> jsstring" where
  "lower_unit c =
     (if 0x41 \<le> c \<and> c \<le> 0x5A then [c + 0x20]
      else if c = 0x212A then [0x6B]
      else if c = 0x0130 then [0x69, 0x0307]
      else [c])"

definition toLowerCase :: "jsstring \<Rightarrow> jsstring" where
  "toLowerCase s = concat (map lower_unit s)"

text \<open>
  The character classes of a regular expression without the \<open>u\<close> flag: \<open>\w\<close>, \<open>\s\<close>
  (white space and line terminators) and the line terminators that \<open>.\<close> excludes.
\<close>

definition is_word :: "code_unit \<Rightarrow> bool" where
  "is_word c = ((0x61 \<le> c \<and> c \<le> 0x7A) \<or> (0x41 \<le> c \<and> c \<le> 0x5A) \<or>
                (0x30 \<le> c \<and> c \<le> 0x39) \<or> c = 0x5F)"

definition is_line_terminator :: "code_unit \<Rightarrow> bool" where
  "is_line_terminator c = (c = 0x0A \<or> c = 0x0D \<or> c = 0x2028 \<or> c = 0x2029)"

definition is_space :: "code_unit \<Rightarrow> bool" where
  "is_space c = (c = 0x09 \<or> c = 0x0B \<or> c = 0x0C \<or> c = 0x20 \<or> c = 0xA0 \<or> c = 0xFEFF \<or>
                 c = 0x1680 \<or> (0x2000 \<le> c \<and> c \<le> 0x200A) \<or> c = 0x202F \<or> c = 0x205F \<or>
                 c = 0x3000 \<or> is_line_terminator c)"

text \<open>
  \<open>s.replace(/[...]/g, rep)\<close> for a class of single code units: every code unit of the
  class is replaced.
\<close>

definition replaceClass :: "(code_unit \<Rightarrow> bool) \<Rightarrow> jsstring \<Rightarrow> jsstring \<Rightarrow> jsstring" where
  "replaceClass cls rep s = concat (map (\<lambda>c. if cls c then rep else [c]) s)"

section \<open>clearUrl\<close>

text \<open>
  \<^verbatim>\<open>
  url.toLowerCase().replace(/[^\w\s]/gi, "").replaceAll(" ", "-").replaceAll("--", "-")
  \<close>
  With the \<open>i\<close> flag the class \<open>[^\w\s]\<close> is unchanged: no code unit beyond ASCII
  is canonicalized to an ASCII letter.
\<close>

definition clearUrl :: "jsstring \<Rightarrow> jsstring" where
  "clearUrl url =
     replaceAll (str ''--'') (str ''-'')
       (replaceAll (str '' '') (str ''-'')
         (replaceClass (\<lambda>c. \<not> (is_word c \<or> is_space c)) []
           (toLowerCase url)))"

section \<open>isJioSaavnLink\<close>

text \<open>
  The fragment of regular expressions that the pattern uses: literal text, \<open>.\<close>,
  sequence, alternative, \<open>?\<close> and \<open>+\<close>. Groups only capture, so they are not
  represented.
\<close>

datatype rx = Lit jsstring | Dot | Seq rx rx | Alt rx rx | Opt rx | Plus rx

text \<open>
  The backtracking matcher, as the list of the remainders that a match of the
  expression at the start of \<open>s\<close> can leave, in the order in which they are tried.
  A repetition goes on only after an iteration that consumed input.
\<close>

fun repeat :: "(jsstring \<Rightarrow> jsstring list) \<Rightarrow> nat \<Rightarrow> jsstring \<Rightarrow> jsstring list" where
  "repeat m 0 s = []"
| "repeat m (Suc n) s =
     concat (map (\<lambda>t. (if length t < length s then repeat m n t else []) @ [t]) (m s))"

fun match :: "rx \<Rightarrow> jsstring \<Rightarrow> jsstring list" where
  "match (Lit w) s = (if prefix w s then [drop (length w) s] else [])"
| "match Dot s = (case s of [] \<Rightarrow> [] | c # cs \<Rightarrow> if is_line_terminator c then [] else [cs])"
| "match (Seq a b) s = concat (map (match b) (match a s))"
| "match (Alt a b) s = match a s @ match b s"
| "match (Opt a) s = match a s @ [s]"
| "match (Plus a) s = repeat (match a) (Suc (length s)) s"

text \<open>
  \<open>/^...$/.test(s)\<close> without flags: a match that starts at the first code unit and
  leaves nothing.
\<close>

definition test_anchored :: "rx \<Rightarrow> jsstring \<Rightarrow> bool" where
  "test_anchored r s = ([] \<in> set (match r s))"

text \<open>
  \<^verbatim>\<open>/^(https?:\/\/)?(www.)?jiosaavn\.com\/(song|shows|album|artist|featured)\/(.+)$/\<close>
\<close>

definition link_pattern :: rx where
  "link_pattern =
     Seq (Opt (Seq (Lit (str ''http'')) (Seq (Opt (Lit (str ''s''))) (Lit (str ''://'')))))
    (Seq (Opt (Seq (Lit (str ''www'')) Dot))
    (Seq (Lit (str ''jiosaavn.com/''))
    (Seq (Alt (Lit (str ''song'')) (Alt (Lit (str ''shows'')) (Alt (Lit (str ''album''))
            (Alt (Lit (str ''artist'')) (Lit (str ''featured''))))))
    (Seq (Lit (str ''/''))
         (Plus Dot)))))"

definition isJioSaavnLink :: "jsstring \<Rightarrow> bool" where
  "isJioSaavnLink url = test_anchored link_pattern url"

text \<open>
  The strings that an expression matches in full, for stating what the matcher decides.
\<close>

fun lang :: "rx \<Rightarrow> jsstring set" where
  "lang (Lit w) = {w}"
| "lang Dot = {[c] | c. \<not> is_line_terminator c}"
| "lang (Seq a b) = {u @ v | u v. u \<in> lang a \<and> v \<in> lang b}"
| "lang (Alt a b) = lang a \<union> lang b"
| "lang (Opt a) = insert [] (lang a)"
| "lang (Plus a) = {concat ws | ws. ws \<noteq> [] \<and> set ws \<subseteq> lang a}"

text \<open>
  The specification's words: the protocol and the host are matched without regard to
  case, the path as it is. The string is cut in two; the first part, in lower case,
  matches \<open>(https?://)?(www.)?jiosaavn\.com\<close> and the second part matches
  \<open>/(song|shows|album|artist|featured)/(.+)\<close>.
\<close>

definition host_pattern :: rx where
  "host_pattern =
     Seq (Opt (Seq (Lit (str ''http'')) (Seq (Opt (Lit (str ''s''))) (Lit (str ''://'')))))
    (Seq (Opt (Seq (Lit (str ''www'')) Dot))
         (Lit (str ''jiosaavn.com'')))"

definition path_pattern :: rx where
  "path_pattern =
     Seq (Lit (str ''/''))
    (Seq (Alt (Lit (str ''song'')) (Alt (Lit (str ''shows'')) (Alt (Lit (str ''album''))
            (Alt (Lit (str ''artist'')) (Lit (str ''featured''))))))
    (Seq (Lit (str ''/''))
         (Plus Dot)))"

definition matches_host_ignoring_case :: "jsstring \<Rightarrow> bool" where
  "matches_host_ignoring_case url =
     list_ex (\<lambda>n. test_anchored host_pattern (toLowerCase (take n url)) \<and>
                  test_anchored path_pattern (drop n url))
       [0..<Suc (length url)]"

section \<open>Catalog items\<close>

record AlbumArtist =
  name :: jsstring
  url :: jsstring

text \<open>
  An entry of an artist list is typed \<open>AlbumArtist\<close>. The types are gone when the code
  runs, and \<open>getArtists\<close> reads the field \<open>artists\<close> under \<open>@ts-ignore\<close>: an entry can
  also be a plain string, which has no \<open>name\<close> and no \<open>url\<close>. A property that is read
  is a string or \<open>undefined\<close>, here \<open>None\<close>.
\<close>

datatype artist_entry = ArtistRecord AlbumArtist | PlainString jsstring

text \<open>\<open>artist.name\<close> and \<open>artist.url\<close>\<close>

definition entry_name :: "artist_entry \<Rightarrow> jsstring option" where
  "entry_name e = (case e of ArtistRecord a \<Rightarrow> Some (AlbumArtist.name a) | PlainString s \<Rightarrow> None)"

definition entry_url :: "artist_entry \<Rightarrow> jsstring option" where
  "entry_url e = (case e of ArtistRecord a \<Rightarrow> Some (url a) | PlainString s \<Rightarrow> None)"

text \<open>
  An artist-bearing field is typed \<open>string | AlbumArtist[]\<close>; the code also guards
  against its absence with \<open>?.\<close> and \<open>??\<close>.
\<close>

datatype artist_field = ArtistString jsstring | ArtistList "artist_entry list" | ArtistAbsent

text \<open>The fields of a \<open>Song | Album\<close> that the code reads.\<close>

record item =
  name :: jsstring
  year :: jsstring
  artists :: artist_field
  primaryArtists :: artist_field
  primaryArtistsId :: jsstring
  featuredArtists :: artist_field
  downloadUrl :: "quality_link list"

text \<open>\<open>x ?? []\<close>\<close>

definition or_empty :: "'a list option \<Rightarrow> 'a list" where
  "or_empty x = (case x of None \<Rightarrow> [] | Some l \<Rightarrow> l)"

section \<open>getArtists\<close>

text \<open>
  \<^verbatim>\<open>
  if (typeof artists === "string") {
    return artists.length ? artists.split(", ") : [];
  } else {
    return artists?.map((artist) => artist.name);
  }
  \<close>
\<close>

definition getArtistsFromList :: "artist_field \<Rightarrow> jsstring option list option" where
  "getArtistsFromList as =
     (case as of
        ArtistString s \<Rightarrow> Some (map Some (if length s \<noteq> 0 then split (str '', '') s else []))
      | ArtistList l \<Rightarrow> Some (map entry_name l)
      | ArtistAbsent \<Rightarrow> None)"

text \<open>
  A \<open>Set\<close> is its elements in insertion order; \<open>add\<close> leaves the set as it is when the
  element is there already.
\<close>

definition set_add :: "'a \<Rightarrow> 'a list \<Rightarrow> 'a list" where
  "set_add x s = (if x \<in> set s then s else s @ [x])"

text \<open>\<^verbatim>\<open>artists?.forEach((artist) => uniqueArtists.add(artist))\<close>\<close>

definition addArtistsToList ::
  "jsstring option list option \<Rightarrow> jsstring option list \<Rightarrow> jsstring option list" where
  "addArtistsToList as uniqueArtists =
     (case as of None \<Rightarrow> uniqueArtists | Some l \<Rightarrow> fold set_add l uniqueArtists)"

text \<open>
  \<open>xs.join(sep)\<close> on an array whose elements are strings or \<open>undefined\<close>: an
  \<open>undefined\<close> element is rendered as the empty string.
\<close>

definition join_values :: "jsstring \<Rightarrow> jsstring option list \<Rightarrow> jsstring" where
  "join_values sep vs = join sep (map (\<lambda>v. case v of None \<Rightarrow> [] | Some s \<Rightarrow> s) vs)"

text \<open>\<^verbatim>\<open>Array.from(uniqueArtists).join(", ")\<close>\<close>

definition getArtists :: "item \<Rightarrow> jsstring" where
  "getArtists it =
     (let uniqueArtists = [];
          uniqueArtists = addArtistsToList (getArtistsFromList (artists it)) uniqueArtists;
          uniqueArtists = addArtistsToList (getArtistsFromList (primaryArtists it)) uniqueArtists;
          uniqueArtists = addArtistsToList (getArtistsFromList (featuredArtists it)) uniqueArtists
      in join_values (str '', '') uniqueArtists)"

text \<open>
  The specification's words. A field has one of the two shapes of its type when it is a
  string, or a list whose entries are all \<open>{name, url}\<close> records (or when it is absent).
  It is normalized to a list of names: a string is split on \<open>", "\<close>, the empty string
  gives no name, a structured list gives the names of its records. Deduplication keeps
  the first occurrence of every name.
\<close>

definition is_record :: "artist_entry \<Rightarrow> bool" where
  "is_record e = (case e of ArtistRecord a \<Rightarrow> True | PlainString s \<Rightarrow> False)"

definition structured :: "artist_field \<Rightarrow> bool" where
  "structured f = (case f of ArtistList l \<Rightarrow> list_all is_record l | _ \<Rightarrow> True)"

definition normalized_names :: "artist_field \<Rightarrow> jsstring list" where
  "normalized_names f =
     (case f of
        ArtistString s \<Rightarrow> if s = [] then [] else split (str '', '') s
      | ArtistList l \<Rightarrow>
          concat (map (\<lambda>e. case e of ArtistRecord a \<Rightarrow> [AlbumArtist.name a] | PlainString s \<Rightarrow> []) l)
      | ArtistAbsent \<Rightarrow> [])"

fun first_seen :: "'a list \<Rightarrow> 'a list" where
  "first_seen [] = []"
| "first_seen (x # xs) = x # removeAll x (first_seen xs)"

section \<open>getArtistIds\<close>

text \<open>
  \<^verbatim>\<open>typeof artists !== "string" ? artists?.map((artist) => artist.url) : null\<close>
\<close>

definition getArtistIdsFromList :: "artist_field \<Rightarrow> jsstring option list option" where
  "getArtistIdsFromList as =
     (case as of
        ArtistString s \<Rightarrow> None
      | ArtistList l \<Rightarrow> Some (map entry_url l)
      | ArtistAbsent \<Rightarrow> None)"

text \<open>
  \<^verbatim>\<open>
  return [
    ...primaryArtistsId.split(", "),
    ...(getArtistIdsFromList(primaryArtists) ?? []),
    ...(getArtistIdsFromList(featuredArtists) ?? []),
  ];
  \<close>
\<close>

definition getArtistIds :: "item \<Rightarrow> jsstring option list" where
  "getArtistIds it =
     map Some (split (str '', '') (primaryArtistsId it)) @
     or_empty (getArtistIdsFromList (primaryArtists it)) @
     or_empty (getArtistIdsFromList (featuredArtists it))"

section \<open>getHomeData\<close>

text \<open>
  The payload of the catalog API and the aggregate that \<open>getHomeData\<close> returns. The
  entries are of types that the code does not look into: \<open>'i\<close> for songs and albums,
  \<open>'p\<close> for playlists, \<open>'c\<close> for charts.
\<close>

record 'i Trending =
  albums :: "'i list"
  songs :: "'i list"

record ('i, 'p, 'c) HomeData =
  trending :: "'i Trending"
  albums :: "'i list"
  playlists :: "'p list"
  charts :: "'c list"

record ('i, 'p, 'c) Home =
  trending :: "'i list"
  albums :: "'i list"
  playlists :: "'p list"
  charts :: "'c list"

text \<open>
  The process-wide store and the catalog API as explicit state: the cached payload
  (\<open>store.getState().root.homeData\<close>, \<open>None\<close> when it is null), the answer of the API
  to its \<open>n\<close>-th request (a rejection, or a payload that may be absent), and the number
  of requests made so far.
\<close>

record ('i, 'p, 'c) world =
  homeData :: "('i, 'p, 'c) HomeData option"
  api_getHomeData :: "nat \<Rightarrow> js_error + ('i, 'p, 'c) HomeData option"
  fetches :: nat

text \<open>
  Modelled from the spec: the reducer \<open>setHomeData\<close> of the store's root slice is not
  among the sources; dispatching it stores the raw payload into the process-wide state.
\<close>

definition dispatch_setHomeData ::
  "('i, 'p, 'c) HomeData \<Rightarrow> ('i, 'p, 'c) world \<Rightarrow> ('i, 'p, 'c) world" where
  "dispatch_setHomeData h w = w\<lparr>homeData := Some h\<rparr>"

definition reshape :: "('i, 'p, 'c) HomeData \<Rightarrow> ('i, 'p, 'c) Home" where
  "reshape h =
     \<lparr>Home.trending = Trending.albums (HomeData.trending h) @ Trending.songs (HomeData.trending h),
      Home.albums = HomeData.albums h,
      Home.playlists = HomeData.playlists h,
      Home.charts = HomeData.charts h\<rparr>"

text \<open>
  \<^verbatim>\<open>
  const rootSlice = store.getState().root;
  const homeData = rootSlice.homeData ?? (await api.getHomeData());
  homeData && (rootSlice.homeData ?? store.dispatch(setHomeData(homeData)));
  return homeData && { trending: [...], albums: ..., playlists: ..., charts: ... };
  \<close>
  The result is the value the promise settles with and the state after the call;
  \<open>rootSlice\<close> is the snapshot taken before the request.
\<close>

definition getHomeData ::
  "('i, 'p, 'c) world \<Rightarrow> (js_error + ('i, 'p, 'c) Home option) \<times> ('i, 'p, 'c) world" where
  "getHomeData w =
     (let rootSlice = homeData w;
          (fetched, w1) =
             (case rootSlice of
                Some h \<Rightarrow> (Inr (Some h), w)
              | None \<Rightarrow> (api_getHomeData w (fetches w), w\<lparr>fetches := fetches w + 1\<rparr>))
      in case fetched of
           Inl e \<Rightarrow> (Inl e, w1)
         | Inr None \<Rightarrow> (Inr None, w1)
         | Inr (Some h) \<Rightarrow>
             (Inr (Some (reshape h)),
              (case rootSlice of Some c \<Rightarrow> w1 | None \<Rightarrow> dispatch_setHomeData h w1)))"

section \<open>downloadSong\<close>

datatype SongQuality = low | medium | high | best | lossless

fun quality_value :: "SongQuality \<Rightarrow> jsstring" where
  "quality_value low = str ''_12''"
| "quality_value medium = str ''_48''"
| "quality_value high = str ''_96''"
| "quality_value best = str ''_160''"
| "quality_value lossless = str ''_320''"

text \<open>
  The browser, as far as \<open>downloadSong\<close> uses it. Every call may raise; \<open>'r\<close> is a
  response, \<open>'b\<close> a blob, \<open>'n\<close> a DOM node; \<open>assign\<close> sets \<open>href\<close>, \<open>style\<close>
  and \<open>download\<close> of a node. \<open>textContent\<close> is what
  \<open>new DOMParser().parseFromString(str, "text/html").documentElement.textContent\<close>
  evaluates to, a string or null.
\<close>

record ('r, 'b, 'n) browser =
  fetch :: "jsstring \<Rightarrow> js_error + 'r"
  blob :: "'r \<Rightarrow> js_error + 'b"
  createObjectURL :: "'b \<Rightarrow> js_error + jsstring"
  textContent :: "jsstring \<Rightarrow> js_error + jsstring option"
  createElement :: "jsstring \<Rightarrow> js_error + 'n"
  assign :: "'n \<Rightarrow> jsstring \<Rightarrow> jsstring \<Rightarrow> jsstring \<Rightarrow> js_error + 'n"
  appendChild :: "'n \<Rightarrow> js_error + unit"
  click :: "'n \<Rightarrow> js_error + unit"
  revokeObjectURL :: "jsstring \<Rightarrow> js_error + unit"
  remove :: "'n \<Rightarrow> js_error + unit"

text \<open>
  What a call leaves behind, in order: the requests and DOM operations that succeeded,
  the lines written with \<open>console.error\<close>, and the messages shown to the user.
\<close>

datatype event =
    Fetched jsstring
  | Appended
  | Saved jsstring
  | Revoked jsstring
  | Removed
  | ConsoleError jsstring js_error
  | UserMessage jsstring

text \<open>A computation that may raise and that records events.\<close>

type_synonym 'a eff = "event list \<Rightarrow> (js_error + 'a) \<times> event list"

definition call :: "js_error + 'a \<Rightarrow> 'a eff" where
  "call r = (\<lambda>tr. (r, tr))"

definition emit :: "event \<Rightarrow> unit eff" where
  "emit e = (\<lambda>tr. (Inr (), tr @ [e]))"

definition and_then :: "'a eff \<Rightarrow> ('a \<Rightarrow> 'b eff) \<Rightarrow> 'b eff" where
  "and_then m f = (\<lambda>tr. case m tr of (Inl e, tr') \<Rightarrow> (Inl e, tr') | (Inr x, tr') \<Rightarrow> f x tr')"

definition try_catch :: "'a eff \<Rightarrow> (js_error \<Rightarrow> 'a eff) \<Rightarrow> 'a eff" where
  "try_catch m h = (\<lambda>tr. case m tr of (Inl e, tr') \<Rightarrow> h e tr' | (Inr x, tr') \<Rightarrow> (Inr x, tr'))"

text \<open>\<open>`${x}`\<close> of a string or null.\<close>

definition string_or_null :: "jsstring option \<Rightarrow> jsstring" where
  "string_or_null x = (case x of None \<Rightarrow> str ''null'' | Some s \<Rightarrow> s)"

definition decodeHtml :: "('r, 'b, 'n) browser \<Rightarrow> jsstring \<Rightarrow> jsstring option eff" where
  "decodeHtml br s = call (textContent br s)"

text \<open>
  The body of the \<open>try\<close> block:
  \<^verbatim>\<open>
  const response = await fetch(downloadLink);
  const blob = await response.blob();
  const url = URL.createObjectURL(blob);
  const anchor = Object.assign(document.createElement("a"), { href: url,
    style: "display:none", download: `${decodeHtml(song.name)} ${song.year}.mp3` });
  document.body.appendChild(anchor);
  anchor.click();
  URL.revokeObjectURL(url);
  anchor.remove();
  \<close>
\<close>

definition download_try :: "('r, 'b, 'n) browser \<Rightarrow> item \<Rightarrow> jsstring \<Rightarrow> unit eff" where
  "download_try br song downloadLink =
     and_then (call (fetch br downloadLink)) (\<lambda>response.
     and_then (emit (Fetched downloadLink)) (\<lambda>_.
     and_then (call (blob br response)) (\<lambda>blob.
     and_then (call (createObjectURL br blob)) (\<lambda>url.
     and_then (call (createElement br (str ''a''))) (\<lambda>element.
     and_then (decodeHtml br (item.name song)) (\<lambda>title.
     let download = string_or_null title @ str '' '' @ year song @ str ''.mp3'' in
     and_then (call (assign br element url (str ''display:none'') download)) (\<lambda>anchor.
     and_then (call (appendChild br anchor)) (\<lambda>_.
     and_then (emit Appended) (\<lambda>_.
     and_then (call (click br anchor)) (\<lambda>_.
     and_then (emit (Saved download)) (\<lambda>_.
     and_then (call (revokeObjectURL br url)) (\<lambda>_.
     and_then (emit (Revoked url)) (\<lambda>_.
     and_then (call (remove br anchor)) (\<lambda>_.
     emit Removed))))))))))))))"

text \<open>
  \<^verbatim>\<open>
  const downloadLink = song.downloadUrl[0].link.replace("_12.mp4", quality + ".mp4");
  try { ... } catch (error) {
    console.error("Error occurred during download:", error);
  }
  \<close>
  The first statement stands before the \<open>try\<close>.
\<close>

definition downloadSong :: "('r, 'b, 'n) browser \<Rightarrow> item \<Rightarrow> SongQuality \<Rightarrow> unit eff" where
  "downloadSong br song quality =
     and_then (call (link_at (downloadUrl song) 0)) (\<lambda>l.
       let downloadLink = replace (str ''_12.mp4'') (quality_value quality @ str ''.mp4'') l in
       try_catch (download_try br song downloadLink)
         (\<lambda>error. emit (ConsoleError (str ''Error occurred during download:'') error)))"

text \<open>
  Shorthand for stating what a call does: the rewritten link of a song with a first
  download link, the file name, and the text of the line for \<open>console.error\<close>.
\<close>

abbreviation rewritten_link :: "item \<Rightarrow> SongQuality \<Rightarrow> jsstring" where
  "rewritten_link song quality \<equiv>
     replace (str ''_12.mp4'') (quality_value quality @ str ''.mp4'') (link (downloadUrl song ! 0))"

abbreviation file_name :: "item \<Rightarrow> jsstring option \<Rightarrow> jsstring" where
  "file_name song title \<equiv> string_or_null title @ str '' '' @ year song @ str ''.mp3''"

abbreviation error_line :: jsstring where
  "error_line \<equiv> str ''Error occurred during download:''"

section \<open>strToBase64 and base64ToStr\<close>

subsection \<open>encodeURIComponent\<close>

text \<open>
  The code units that \<open>encodeURIComponent\<close> leaves as they are: the letters and digits
  of ASCII and \<open>- _ . ! ~ * ' ( )\<close>.
\<close>

definition is_alnum :: "code_unit \<Rightarrow> bool" where
  "is_alnum c = ((0x61 \<le> c \<and> c \<le> 0x7A) \<or> (0x41 \<le> c \<and> c \<le> 0x5A) \<or> (0x30 \<le> c \<and> c \<le> 0x39))"

definition uri_unescaped :: "code_unit \<Rightarrow> bool" where
  "uri_unescaped c = (is_alnum c \<or> c \<in> set (str ''-_.!~*()'') \<or> c = 0x27)"

text \<open>Leading and trailing surrogates, and the code point of a surrogate pair.\<close>

definition is_lead :: "code_unit \<Rightarrow> bool" where
  "is_lead c = (0xD800 \<le> unat c \<and> unat c \<le> 0xDBFF)"

definition is_trail :: "code_unit \<Rightarrow> bool" where
  "is_trail c = (0xDC00 \<le> unat c \<and> unat c \<le> 0xDFFF)"

definition pair_code_point :: "code_unit \<Rightarrow> code_unit \<Rightarrow> nat" where
  "pair_code_point lead trail = (unat lead - 0xD800) * 0x400 + (unat trail - 0xDC00) + 0x10000"

text \<open>The octets of the UTF-8 encoding of a code point.\<close>

definition utf8_encode :: "nat \<Rightarrow> nat list" where
  "utf8_encode cp =
     (if cp < 0x80 then [cp]
      else if cp < 0x800 then [0xC0 + cp div 64, 0x80 + cp mod 64]
      else if cp < 0x10000 then [0xE0 + cp div 4096, 0x80 + cp div 64 mod 64, 0x80 + cp mod 64]
      else [0xF0 + cp div 262144, 0x80 + cp div 4096 mod 64, 0x80 + cp div 64 mod 64,
            0x80 + cp mod 64])"

text \<open>An octet as \<open>%XX\<close>, with upper-case hexadecimal digits.\<close>

definition hex_digit :: "nat \<Rightarrow> code_unit" where
  "hex_digit d = (if d < 10 then of_nat (0x30 + d) else of_nat (0x41 + (d - 10)))"

definition percent_encode :: "nat \<Rightarrow> jsstring" where
  "percent_encode b = [0x25, hex_digit (b div 16), hex_digit (b mod 16)]"

definition prepend :: "jsstring \<Rightarrow> js_error + jsstring \<Rightarrow> js_error + jsstring" where
  "prepend p r = (case r of Inl e \<Rightarrow> Inl e | Inr s \<Rightarrow> Inr (p @ s))"

text \<open>
  A code unit of the unescaped set is copied. Otherwise the code point at the position is
  read (a surrogate pair counts as one code point, an unpaired surrogate raises a
  URIError) and each octet of its UTF-8 encoding is escaped.
\<close>

fun encodeURIComponent :: "jsstring \<Rightarrow> js_error + jsstring" where
  "encodeURIComponent [] = Inr []"
| "encodeURIComponent (c # cs) =
     (if uri_unescaped c then prepend [c] (encodeURIComponent cs)
      else if is_trail c then Inl URIError
      else if is_lead c then
        (case cs of
           [] \<Rightarrow> Inl URIError
         | d # ds \<Rightarrow>
             if is_trail d
             then prepend (concat (map percent_encode (utf8_encode (pair_code_point c d))))
                    (encodeURIComponent ds)
             else Inl URIError)
      else prepend (concat (map percent_encode (utf8_encode (unat c)))) (encodeURIComponent cs))"

subsection \<open>decodeURIComponent\<close>

definition hex_value :: "code_unit \<Rightarrow> nat option" where
  "hex_value c =
     (let n = unat c in
      if 0x30 \<le> n \<and> n \<le> 0x39 then Some (n - 0x30)
      else if 0x41 \<le> n \<and> n \<le> 0x46 then Some (n - 0x41 + 10)
      else if 0x61 \<le> n \<and> n \<le> 0x66 then Some (n - 0x61 + 10)
      else None)"

text \<open>The octet that two hexadecimal digits denote; nothing when a digit is missing.\<close>

fun parseHexOctet :: "jsstring \<Rightarrow> nat option" where
  "parseHexOctet [h1, h2] =
     (case (hex_value h1, hex_value h2) of (Some a, Some b) \<Rightarrow> Some (16 * a + b) | _ \<Rightarrow> None)"
| "parseHexOctet s = None"

text \<open>
  The number of leading 1 bits of an octet; 5 stands for every number above 4.
\<close>

definition leading_ones :: "nat \<Rightarrow> nat" where
  "leading_ones b =
     (if b < 0x80 then 0 else if b < 0xC0 then 1 else if b < 0xE0 then 2
      else if b < 0xF0 then 3 else if b < 0xF8 then 4 else 5)"

text \<open>The octets of the next \<open>k\<close> escapes \<open>%XX\<close>; nothing when one of them is not there.\<close>

fun continuation_octets :: "nat \<Rightarrow> jsstring \<Rightarrow> nat list option" where
  "continuation_octets 0 s = Some []"
| "continuation_octets (Suc k) s =
     (if take 1 s = [0x25] then
        (case parseHexOctet (take 2 (drop 1 s)) of
           None \<Rightarrow> None
         | Some b \<Rightarrow> map_option ((#) b) (continuation_octets k (drop 3 s)))
      else None)"

text \<open>
  The code point of a sequence of two to four octets that is a valid UTF-8 encoding: the
  continuation octets have the form \<open>10xxxxxx\<close>, the encoding is the shortest one, and
  the code point is no surrogate and at most \<open>0x10FFFF\<close>.
\<close>

definition is_continuation :: "nat \<Rightarrow> bool" where
  "is_continuation b = (0x80 \<le> b \<and> b < 0xC0)"

fun utf8_decode :: "nat list \<Rightarrow> nat option" where
  "utf8_decode [b0, b1] =
     (let cp = (b0 - 0xC0) * 64 + (b1 - 0x80) in
      if is_continuation b1 \<and> 0x80 \<le> cp then Some cp else None)"
| "utf8_decode [b0, b1, b2] =
     (let cp = (b0 - 0xE0) * 4096 + (b1 - 0x80) * 64 + (b2 - 0x80) in
      if is_continuation b1 \<and> is_continuation b2 \<and> 0x800 \<le> cp \<and>
         \<not> (0xD800 \<le> cp \<and> cp \<le> 0xDFFF)
      then Some cp else None)"
| "utf8_decode [b0, b1, b2, b3] =
     (let cp = (b0 - 0xF0) * 262144 + (b1 - 0x80) * 4096 + (b2 - 0x80) * 64 + (b3 - 0x80) in
      if is_continuation b1 \<and> is_continuation b2 \<and> is_continuation b3 \<and>
         0x10000 \<le> cp \<and> cp \<le> 0x10FFFF
      then Some cp else None)"
| "utf8_decode bs = None"

definition utf16_encode :: "nat \<Rightarrow> jsstring" where
  "utf16_encode cp =
     (if cp \<le> 0xFFFF then [of_nat cp]
      else [of_nat ((cp - 0x10000) div 0x400 + 0xD800), of_nat ((cp - 0x10000) mod 0x400 + 0xDC00)])"

text \<open>
  A code unit other than \<open>%\<close> is copied. An escape \<open>%XX\<close> of an octet below \<open>0x80\<close>
  gives that code unit; otherwise the octet announces a sequence of \<open>n\<close> octets, the
  following \<open>n - 1\<close> escapes are read, and the sequence must be valid UTF-8. Every
  violation raises a URIError.
\<close>

function decodeURIComponent :: "jsstring \<Rightarrow> js_error + jsstring" where
  "decodeURIComponent [] = Inr []"
| "decodeURIComponent (c # cs) =
     (if c \<noteq> 0x25 then prepend [c] (decodeURIComponent cs)
      else case parseHexOctet (take 2 cs) of
        None \<Rightarrow> Inl URIError
      | Some b \<Rightarrow>
          if leading_ones b = 0 then prepend [of_nat b] (decodeURIComponent (drop 2 cs))
          else if leading_ones b = 1 \<or> leading_ones b > 4 then Inl URIError
          else
            (case continuation_octets (leading_ones b - 1) (drop 2 cs) of
               None \<Rightarrow> Inl URIError
             | Some octets \<Rightarrow>
                 (case utf8_decode (b # octets) of
                    None \<Rightarrow> Inl URIError
                  | Some v \<Rightarrow>
                      prepend (utf16_encode v)
                        (decodeURIComponent (drop (3 * (leading_ones b - 1)) (drop 2 cs))))))"
  by pat_completeness auto
termination
  by (relation "measure length") auto

subsection \<open>btoa and atob\<close>

text \<open>The base64 alphabet: the character of a 6-bit value, and the value of a character.\<close>

definition base64_char :: "nat \<Rightarrow> code_unit" where
  "base64_char i =
     (if i < 26 then of_nat (0x41 + i)
      else if i < 52 then of_nat (0x61 + (i - 26))
      else if i < 62 then of_nat (0x30 + (i - 52))
      else if i = 62 then 0x2B else 0x2F)"

definition base64_value :: "code_unit \<Rightarrow> nat option" where
  "base64_value c =
     (let n = unat c in
      if 0x41 \<le> n \<and> n \<le> 0x5A then Some (n - 0x41)
      else if 0x61 \<le> n \<and> n \<le> 0x7A then Some (n - 0x61 + 26)
      else if 0x30 \<le> n \<and> n \<le> 0x39 then Some (n - 0x30 + 52)
      else if n = 0x2B then Some 62
      else if n = 0x2F then Some 63
      else None)"

text \<open>
  Three octets give four characters; one or two octets left at the end give two or three
  characters, padded with \<open>=\<close>.
\<close>

fun base64_encode :: "nat list \<Rightarrow> jsstring" where
  "base64_encode [] = []"
| "base64_encode [a] =
     [base64_char (a div 4), base64_char (a mod 4 * 16), 0x3D, 0x3D]"
| "base64_encode [a, b] =
     [base64_char (a div 4), base64_char (a mod 4 * 16 + b div 16), base64_char (b mod 16 * 4), 0x3D]"
| "base64_encode (a # b # c # bs) =
     [base64_char (a div 4), base64_char (a mod 4 * 16 + b div 16),
      base64_char (b mod 16 * 4 + c div 64), base64_char (c mod 64)] @ base64_encode bs"

text \<open>The encoding without its padding, for stating what \<open>atob\<close> decodes.\<close>

fun base64_body :: "nat list \<Rightarrow> jsstring" where
  "base64_body [] = []"
| "base64_body [a] = [base64_char (a div 4), base64_char (a mod 4 * 16)]"
| "base64_body [a, b] =
     [base64_char (a div 4), base64_char (a mod 4 * 16 + b div 16), base64_char (b mod 16 * 4)]"
| "base64_body (a # b # c # bs) =
     [base64_char (a div 4), base64_char (a mod 4 * 16 + b div 16),
      base64_char (b mod 16 * 4 + c div 64), base64_char (c mod 64)] @ base64_body bs"

text \<open>
  \<open>btoa\<close> raises an InvalidCharacterError when a code unit is above \<open>0xFF\<close>; otherwise
  the code units are the octets to encode.
\<close>

definition btoa :: "jsstring \<Rightarrow> js_error + jsstring" where
  "btoa data =
     (if list_ex (\<lambda>c. 0xFF < unat c) data then Inl InvalidCharacterError
      else Inr (base64_encode (map unat data)))"

text \<open>
  The forgiving decoding of \<open>atob\<close>: ASCII white space is removed; when the length is
  a multiple of 4, one or two \<open>=\<close> at the end are removed; a length that leaves the
  remainder 1, or a character outside the alphabet, is an error. Four characters give
  three octets; of two or three characters left at the end, the last 4 or 2 bits are
  discarded.
\<close>

definition is_ascii_whitespace :: "code_unit \<Rightarrow> bool" where
  "is_ascii_whitespace c = (c = 0x09 \<or> c = 0x0A \<or> c = 0x0C \<or> c = 0x0D \<or> c = 0x20)"

definition strip_padding :: "jsstring \<Rightarrow> jsstring" where
  "strip_padding s =
     (if s \<noteq> [] \<and> last s = 0x3D
      then (if butlast s \<noteq> [] \<and> last (butlast s) = 0x3D then butlast (butlast s) else butlast s)
      else s)"

fun base64_decode :: "nat list \<Rightarrow> nat list" where
  "base64_decode (a # b # c # d # vs) =
     [a * 4 + b div 16, b mod 16 * 16 + c div 4, c mod 4 * 64 + d] @ base64_decode vs"
| "base64_decode [a, b, c] = [a * 4 + b div 16, b mod 16 * 16 + c div 4]"
| "base64_decode [a, b] = [a * 4 + b div 16]"
| "base64_decode vs = []"

fun values_of :: "jsstring \<Rightarrow> nat list option" where
  "values_of [] = Some []"
| "values_of (c # cs) =
     (case base64_value c of
        None \<Rightarrow> None
      | Some v \<Rightarrow> map_option ((#) v) (values_of cs))"

definition atob :: "jsstring \<Rightarrow> js_error + jsstring" where
  "atob data =
     (let d = filter (\<lambda>c. \<not> is_ascii_whitespace c) data;
          d = (if length d mod 4 = 0 then strip_padding d else d)
      in if length d mod 4 = 1 then Inl InvalidCharacterError
         else case values_of d of
                None \<Rightarrow> Inl InvalidCharacterError
              | Some vs \<Rightarrow> Inr (map of_nat (base64_decode vs)))"

subsection \<open>The two functions\<close>

text \<open>
  \<^verbatim>\<open>
  const encodedStr = encodeURIComponent(str);
  return btoa(encodedStr);
  \<close>
\<close>

definition strToBase64 :: "jsstring \<Rightarrow> js_error + jsstring" where
  "strToBase64 s =
     (case encodeURIComponent s of Inl e \<Rightarrow> Inl e | Inr encodedStr \<Rightarrow> btoa encodedStr)"

text \<open>
  \<^verbatim>\<open>
  const decodedStr = atob(base64);
  return decodeURIComponent(decodedStr);
  \<close>
\<close>

definition base64ToStr :: "jsstring \<Rightarrow> js_error + jsstring" where
  "base64ToStr base64 =
     (case atob base64 of Inl e \<Rightarrow> Inl e | Inr decodedStr \<Rightarrow> decodeURIComponent decodedStr)"

text \<open>
  A well-formed string: every leading surrogate is followed by a trailing one, and no
  trailing surrogate stands alone.
\<close>

fun well_formed :: "jsstring \<Rightarrow> bool" where
  "well_formed [] = True"
| "well_formed [c] = (\<not> is_lead c \<and> \<not> is_trail c)"
| "well_formed (c # d # ds) =
     (if is_lead c then is_trail d \<and> well_formed ds
      else \<not> is_trail c \<and> well_formed (d # ds))"

text \<open>
  \<open>e\<close> is the encoding of \<open>s\<close>, it decodes to \<open>s\<close>, and it lies in the range of
  \<open>btoa\<close>.
\<close>

definition encodes_to :: "jsstring \<Rightarrow> jsstring \<Rightarrow> bool" where
  "encodes_to s e \<longleftrightarrow>
     encodeURIComponent s = Inr e \<and> decodeURIComponent e = Inr s \<and> (\<forall>c\<in>set e. unat c \<le> 0xFF)"

section \<open>Verification\<close>

subsection \<open>Code units and numbers\<close>

lemma unat_unit: "n < 65536 \<Longrightarrow> unat (of_nat n :: code_unit) = n"
  by (simp add: unat_of_nat)

lemma unat_code: "c = of_nat n \<Longrightarrow> n < 65536 \<Longrightarrow> unat (c :: code_unit) = n"
  by (simp add: unat_of_nat)

lemma unat_unit_bound: "unat (c :: code_unit) < 65536"
  using unsigned_less [of c, where 'a = nat] by simp

subsection \<open>split and join\<close>

lemma splitFrom_nonempty: "splitFrom sep cur s \<noteq> []"
  by (induction sep cur s rule: splitFrom.induct) (subst splitFrom.simps, simp)

lemma join_Cons: "l \<noteq> [] \<Longrightarrow> join sep (x # l) = x @ sep @ join sep l"
  by (cases l) simp_all

text \<open>Joining the pieces with the separator gives the string back.\<close>

lemma join_splitFrom: "sep \<noteq> [] \<Longrightarrow> join sep (splitFrom sep cur s) = cur @ s"
proof (induction sep cur s rule: splitFrom.induct)
  case (1 sep cur s)
  show ?case
  proof (cases "s = []")
    case True
    then show ?thesis by (subst splitFrom.simps) simp
  next
    case False
    show ?thesis
    proof (cases "prefix sep s")
      case True
      then have s: "sep @ drop (length sep) s = s"
        by (auto simp: prefix_def)
      have "join sep (splitFrom sep cur s) =
          cur @ sep @ join sep (splitFrom sep [] (drop (length sep) s))"
        using False True 1(3)
        by (subst splitFrom.simps) (simp add: join_Cons splitFrom_nonempty)
      then show ?thesis using 1(1) [OF False] True 1(3) s by simp
    next
      case np: False
      have "join sep (splitFrom sep cur s) = join sep (splitFrom sep (cur @ [hd s]) (tl s))"
        using False np by (subst splitFrom.simps) simp
      then show ?thesis using 1(2) [OF False] np 1(3) False by simp
    qed
  qed
qed

lemma join_split: "sep \<noteq> [] \<Longrightarrow> join sep (split sep s) = s"
  by (simp add: split_def join_splitFrom)

subsection \<open>Numbers\<close>

text \<open>The binary exponent, and the rounding to an integer.\<close>

lemma bits_bounds: "0 < n \<Longrightarrow> 2 ^ (bits n - 1) \<le> n \<and> n < 2 ^ bits n"
proof (induction n rule: bits.induct)
  case (1 n)
  show ?case
  proof (cases "n div 2 = 0")
    case True
    then have "n = 1" using 1(2) by (simp add: div_eq_0_iff)
    then show ?thesis by (simp add: bits.simps)
  next
    case False
    then have ih: "2 ^ (bits (n div 2) - 1) \<le> n div 2" "n div 2 < 2 ^ bits (n div 2)"
      using 1 by simp_all
    have pos: "0 < bits (n div 2)" using False by (subst bits.simps) simp
    have b: "bits n = Suc (bits (n div 2))" using 1(2) by (subst bits.simps) simp
    have "2 ^ (bits n - 1) = 2 * 2 ^ (bits (n div 2) - 1)"
      using pos b by (cases "bits (n div 2)") simp_all
    also have "\<dots> \<le> 2 * (n div 2)" using ih(1) by simp
    also have "\<dots> \<le> n" by simp
    finally have lo: "2 ^ (bits n - 1) \<le> n" .
    have "n < 2 * (n div 2) + 2" by presburger
    also have "\<dots> \<le> 2 * 2 ^ bits (n div 2)" using ih(2) by simp
    finally have "n < 2 ^ bits n" using b by simp
    then show ?thesis using lo by simp
  qed
qed

lemma bits_le: "n < 2 ^ k \<Longrightarrow> bits n \<le> k"
proof (rule ccontr)
  assume n: "n < 2 ^ k" and "\<not> bits n \<le> k"
  then have k: "k \<le> bits n - 1" and pos: "0 < n"
    by (auto simp: bits.simps [of 0] intro: Nat.gr0I)
  have "(2::nat) ^ k \<le> 2 ^ (bits n - 1)" using k by (simp add: power_increasing)
  also have "\<dots> \<le> n" using bits_bounds [OF pos] by simp
  finally show False using n by simp
qed

lemma bits_gt: "2 ^ k \<le> n \<Longrightarrow> k < bits n"
proof (rule ccontr)
  assume n: "2 ^ k \<le> n" and "\<not> k < bits n"
  then have k: "bits n \<le> k" by simp
  have pos: "0 < n" using n by (cases n) simp_all
  have "n < 2 ^ bits n" using bits_bounds [OF pos] by simp
  also have "\<dots> \<le> 2 ^ k" using k by (simp add: power_increasing)
  finally show False using n by simp
qed

lemma exponent_le:
  assumes "1 \<le> x" "x < 2 ^ k"
  shows "exponent x \<le> int k - 1"
proof -
  have "nat \<lfloor>x\<rfloor> < 2 ^ k"
  proof -
    have "real_of_int \<lfloor>x\<rfloor> < 2 ^ k" using assms(2) by linarith
    then have "\<lfloor>x\<rfloor> < 2 ^ k" by (metis of_int_less_iff of_int_numeral of_int_power)
    then show ?thesis using assms(1) by (simp add: nat_less_iff)
  qed
  then have "bits (nat \<lfloor>x\<rfloor>) \<le> k" by (rule bits_le)
  then show ?thesis using assms(1) by (simp add: exponent_def)
qed

lemma exponent_ge:
  assumes "2 ^ k \<le> x"
  shows "int k \<le> exponent x"
proof -
  have one: "1 \<le> x" using assms by (meson one_le_numeral one_le_power order_trans)
  have "2 ^ k \<le> \<lfloor>x\<rfloor>"
    using assms by (metis le_floor_iff of_int_numeral of_int_power)
  then have "2 ^ k \<le> nat \<lfloor>x\<rfloor>" by (simp add: le_nat_iff)
  then have "k < bits (nat \<lfloor>x\<rfloor>)" by (rule bits_gt)
  then show ?thesis using one by (simp add: exponent_def)
qed

lemma exponent_small: "x < 1 \<Longrightarrow> exponent x \<le> 0"
  by (simp add: exponent_def)

lemma pow2_exponent_le:
  assumes "1 \<le> x"
  shows "pow2 (exponent x) \<le> x"
proof -
  let ?n = "nat \<lfloor>x\<rfloor>"
  have pos: "0 < ?n" using assms by simp
  have e: "exponent x = int (bits ?n - 1)"
    using assms bits_gt [of 0 ?n] pos by (simp add: exponent_def)
  have "real (2 ^ (bits ?n - 1)) \<le> real ?n"
    using bits_bounds [OF pos] by (simp only: of_nat_le_iff)
  also have "\<dots> \<le> x" using assms by simp
  finally show ?thesis by (simp add: e pow2_def)
qed

lemma round_half_even_error: "\<bar>of_int (round_half_even z) - z\<bar> \<le> 1 / 2"
proof -
  define f r where "f = \<lfloor>z\<rfloor>" and "r = frac z"
  have z: "z = of_int f + r" by (simp add: f_def r_def frac_def)
  have r: "0 \<le> r" "r < 1" by (simp_all add: r_def frac_lt_1)
  have "round_half_even z = f \<and> r \<le> 1 / 2 \<or> round_half_even z = f + 1 \<and> 1 / 2 \<le> r"
    unfolding round_half_even_def f_def [symmetric] r_def [symmetric] by auto
  then show ?thesis
  proof
    assume "round_half_even z = f \<and> r \<le> 1 / 2"
    then show ?thesis using r z by simp
  next
    assume "round_half_even z = f + 1 \<and> 1 / 2 \<le> r"
    then show ?thesis using r z by simp
  qed
qed

lemma round_half_even_int: "round_half_even (of_int n) = n"
  by (simp add: round_half_even_def)

lemma round_half_even_ge: "\<lfloor>z\<rfloor> \<le> round_half_even z"
  by (simp add: round_half_even_def)

text \<open>
  Rounding to a Number leaves an integer below \<open>2\<^sup>5\<^sup>3\<close> as it is, and gives at least
  \<open>2\<^sup>5\<^sup>3\<close> from \<open>2\<^sup>5\<^sup>3\<close> on.
\<close>

lemma pow2_nonpos: "u \<le> 0 \<Longrightarrow> pow2 u = 1 / 2 ^ nat (- u)"
  by (cases "u = 0") (simp_all add: pow2_def)

lemma pow2_nonneg: "0 \<le> u \<Longrightarrow> pow2 u = 2 ^ nat u"
  by (simp add: pow2_def)

lemma binary64_pos_int:
  assumes "1 \<le> n" "n < 2 ^ 53"
  shows "binary64_pos (of_int n) = Finite (of_int n)"
proof -
  let ?x = "real_of_int n"
  have x: "1 \<le> ?x" "?x < 2 ^ 53" "2 ^ 0 \<le> ?x"
    using assms by (simp_all add: of_int_less_numeral_power_cancel_iff)
  have e: "0 \<le> exponent ?x" "exponent ?x \<le> 52"
    using exponent_ge [OF x(3)] exponent_le [OF x(1,2)] by simp_all
  define k where "k = nat (52 - exponent ?x)"
  have u: "max (exponent ?x) (- 1022) - 52 = - int k" using e by (simp add: k_def)
  have p: "pow2 (- int k) = 1 / 2 ^ k" using pow2_nonpos [of "- int k"] by simp
  have "?x / pow2 (- int k) = of_int (n * 2 ^ k)" by (simp add: p)
  then have m: "round_half_even (?x / pow2 (- int k)) = n * 2 ^ k"
    by (simp only: round_half_even_int)
  have "of_int (round_half_even (?x / pow2 (- int k))) * pow2 (- int k) =
      real_of_int (n * 2 ^ k) * (1 / 2 ^ k)"
    by (simp only: m) (simp only: p)
  also have "\<dots> = ?x" by simp
  finally have r: "of_int (round_half_even (?x / pow2 (- int k))) * pow2 (- int k) = ?x" .
  have "?x < 2 ^ 1024"
  proof -
    have "(2::real) ^ 53 \<le> 2 ^ 1024" by (rule power_increasing) simp_all
    then show ?thesis using x(2) by linarith
  qed
  then show ?thesis
    by (simp add: binary64_pos_def Let_def u r not_le [symmetric] del: max.bounded_iff)
qed

lemma binary64_int:
  assumes "0 \<le> n" "n < 2 ^ 53"
  shows "binary64 (of_int n) = Finite (of_int n)"
proof (cases "n = 0")
  case True
  then show ?thesis by (simp add: binary64_def)
next
  case False
  then have "1 \<le> n" using assms(1) by simp
  then show ?thesis
    using binary64_pos_int [OF _ assms(2)] False assms(1) by (simp add: binary64_def)
qed

lemma binary64_pos_large:
  assumes "2 ^ 53 \<le> x" "binary64_pos x = Finite r"
  shows "2 ^ 53 \<le> r"
proof -
  have one: "1 \<le> x" using assms(1) by (meson one_le_numeral one_le_power order_trans)
  have e: "53 \<le> exponent x" using exponent_ge [OF assms(1)] by simp
  define k where "k = nat (exponent x - 52)"
  have u: "max (exponent x) (- 1022) - 52 = int k" using e by (simp add: k_def)
  have p: "pow2 (int k) = 2 ^ k" by (simp add: pow2_def)
  have ek: "exponent x = int (52 + k)" using e by (simp add: k_def)
  have "pow2 (int (52 + k)) = 2 ^ (52 + k)" by (simp add: pow2_def del: of_nat_add)
  then have "2 ^ (52 + k) \<le> x" using pow2_exponent_le [OF one] by (simp only: ek)
  then have "(2::real) ^ 52 \<le> x / 2 ^ k" by (simp add: power_add pos_le_divide_eq)
  then have "2 ^ 52 \<le> \<lfloor>x / 2 ^ k\<rfloor>"
    by (metis le_floor_iff of_int_numeral of_int_power)
  then have "2 ^ 52 \<le> round_half_even (x / 2 ^ k)"
    using round_half_even_ge [of "x / 2 ^ k"] by linarith
  then have "(2::real) ^ 52 \<le> of_int (round_half_even (x / 2 ^ k))"
    by (metis of_int_le_iff of_int_numeral of_int_power)
  then have "(2::real) ^ 52 * 2 ^ k \<le> of_int (round_half_even (x / 2 ^ k)) * 2 ^ k"
    by (simp add: mult_right_mono)
  moreover have "(2::real) ^ 53 \<le> 2 ^ 52 * 2 ^ k"
  proof -
    have "1 \<le> k" using e by (simp add: k_def)
    then have "(2::real) ^ 1 \<le> 2 ^ k" by (intro power_increasing) simp_all
    then show ?thesis by simp
  qed
  moreover have "r = of_int (round_half_even (x / 2 ^ k)) * 2 ^ k"
    using assms(2) by (simp add: binary64_pos_def Let_def u p split: if_splits)
  ultimately show ?thesis by linarith
qed

text \<open>
  Below \<open>2\<^sup>5\<^sup>3\<close> the rounded quotient by 60 has the floor of the exact quotient: the
  rounding error is at most \<open>1/64\<close>, less than the distance \<open>1/60\<close> of a quotient that
  is not an integer from the next integer.
\<close>

lemma floor_divide_60:
  assumes "0 \<le> s" "s < 2 ^ 53"
  shows "Math_floor (divide_by (Finite (of_int s)) 60) = Finite (s div 60)"
proof (cases "s = 0")
  case True
  then show ?thesis by (simp add: binary64_def)
next
  case False
  then have spos: "0 < s" using assms(1) by simp
  define x where "x = real_of_int s / 60"
  define q t where "q = s div 60" and "t = s mod 60"
  have xpos: "0 < x" using spos by (simp add: x_def)
  have xq: "x = of_int q + of_int t / 60"
  proof -
    have "s = q * 60 + t" by (simp add: q_def t_def)
    then have "real_of_int s = of_int q * 60 + of_int t" by (metis of_int_add of_int_mult of_int_numeral)
    then show ?thesis by (simp add: x_def)
  qed
  have t: "0 \<le> t" "t < 60" by (simp_all add: t_def)
  have xlt: "x < 2 ^ 48"
  proof -
    have "real_of_int s < 2 ^ 53" using assms(2) by (simp add: of_int_less_numeral_power_cancel_iff)
    then show ?thesis by (simp add: x_def)
  qed
  have e: "exponent x \<le> 47"
  proof (cases "1 \<le> x")
    case True
    then show ?thesis using exponent_le [OF True xlt] by simp
  next
    case False
    then show ?thesis using exponent_small [of x] by simp
  qed
  define k where "k = nat (52 - max (exponent x) (- 1022))"
  have u: "max (exponent x) (- 1022) - 52 = - int k" using e by (simp add: k_def)
  have k5: "5 \<le> k" using e by (simp add: k_def)
  have p: "pow2 (- int k) = 1 / 2 ^ k" using pow2_nonpos [of "- int k"] by simp
  define m where "m = round_half_even (x * 2 ^ k)"
  define r where "r = real_of_int m / 2 ^ k"
  have xp: "x / pow2 (- int k) = x * 2 ^ k" by (simp add: p)
  have rr: "of_int (round_half_even (x / pow2 (- int k))) * pow2 (- int k) = r"
    by (simp only: xp) (simp add: r_def m_def p)
  have err: "\<bar>r - x\<bar> \<le> 1 / 64"
  proof -
    have "\<bar>real_of_int m - x * 2 ^ k\<bar> \<le> 1 / 2"
      unfolding m_def by (rule round_half_even_error)
    then have "\<bar>real_of_int m - x * 2 ^ k\<bar> / 2 ^ k \<le> (1 / 2) / 2 ^ k"
      by (rule divide_right_mono) simp
    moreover have "\<bar>real_of_int m - x * 2 ^ k\<bar> / 2 ^ k = \<bar>r - x\<bar>"
    proof -
      have "r - x = (real_of_int m - x * 2 ^ k) / 2 ^ k" by (simp add: r_def diff_divide_distrib)
      then show ?thesis by (simp add: abs_divide)
    qed
    moreover have "(1 / 2) / (2::real) ^ k \<le> 1 / 64"
    proof -
      have "(2::real) ^ 5 \<le> 2 ^ k" using k5 by (intro power_increasing) simp_all
      then have "(64::real) \<le> 2 * 2 ^ k" by simp
      then have "1 / (2 * (2::real) ^ k) \<le> 1 / 64" by (intro divide_left_mono) simp_all
      then show ?thesis by simp
    qed
    ultimately show ?thesis by linarith
  qed
  have fl: "\<lfloor>r\<rfloor> = q"
  proof (cases "t = 0")
    case True
    then have "x * 2 ^ k = of_int (q * 2 ^ k)" by (simp add: xq)
    then have "m = q * 2 ^ k" unfolding m_def by (simp only: round_half_even_int)
    then have "r = of_int q" by (simp add: r_def)
    then show ?thesis by simp
  next
    case False
    then have "1 \<le> t" "t \<le> 59" using t by simp_all
    then have "1 \<le> real_of_int t" "real_of_int t \<le> 59" by simp_all
    then have "of_int q + 1 / 60 \<le> x" "x \<le> of_int q + 59 / 60"
      by (simp_all add: xq)
    then have "of_int q \<le> r" "r < of_int q + 1" using err by linarith+
    then show ?thesis by (simp add: floor_unique)
  qed
  have fin: "\<not> 2 ^ 1024 \<le> r"
  proof -
    have "r \<le> x + 1 / 64" using err by linarith
    also have "\<dots> < 2 ^ 48 + 1" using xlt by simp
    also have "\<dots> \<le> 2 ^ 1024"
    proof -
      have "(2::real) ^ 49 \<le> 2 ^ 1024" by (rule power_increasing) simp_all
      then show ?thesis by simp
    qed
    finally show ?thesis by simp
  qed
  have "binary64 x = Finite r"
    using xpos fin by (simp add: binary64_def binary64_pos_def Let_def u rr del: max.bounded_iff)
  then show ?thesis
    by (simp add: x_def [symmetric] fl q_def)
qed

lemma remainder_60:
  assumes "0 \<le> s"
  shows "Math_floor (remainder_by (Finite (of_int s)) 60) = Finite (s mod 60)"
proof -
  have f: "\<lfloor>real_of_int s / 60\<rfloor> = s div 60"
    using floor_divide_of_int_eq [of s 60] by simp
  have "real_of_int s - 60 * real_of_int (s div 60) = real_of_int (s mod 60)"
  proof -
    have "real_of_int (60 * (s div 60) + s mod 60) = real_of_int s"
      by (simp only: mult_div_mod_eq)
    then have "60 * real_of_int (s div 60) + real_of_int (s mod 60) = real_of_int s"
      by (simp only: of_int_add of_int_mult of_int_numeral)
    then show ?thesis by linarith
  qed
  then have "sgn (real_of_int s) * (\<bar>real_of_int s\<bar> - 60 * of_int \<lfloor>\<bar>real_of_int s\<bar> / 60\<rfloor>) =
      real_of_int (s mod 60)"
    using assms f by (cases "s = 0") (simp_all add: sgn_if)
  then show ?thesis by simp
qed

text \<open>An integer below \<open>2\<^sup>5\<^sup>3\<close> is written with all its digits.\<close>

lemma candidates_safe:
  assumes "n < 2 ^ 53" "v \<in> set (candidates n k)"
  shows "v = n"
proof -
  have b: "binary64 (real v) = Finite (real n)"
    using assms(2) by (auto simp: candidates_def Let_def split: if_splits)
  show ?thesis
  proof (cases "v < 2 ^ 53")
    case True
    then have "int v < 2 ^ 53" by (metis of_nat_less_iff of_nat_numeral of_nat_power)
    then have "binary64 (of_int (int v)) = Finite (of_int (int v))"
      by (intro binary64_int) simp_all
    then show ?thesis using b by simp
  next
    case False
    then have "(2::nat) ^ 53 \<le> v" by simp
    then have large: "(2::real) ^ 53 \<le> real v"
      by (metis of_nat_le_iff of_nat_numeral of_nat_power)
    then have "0 < real v" by (meson less_le_trans zero_less_numeral zero_less_power)
    then have "binary64_pos (real v) = Finite (real n)"
      using b by (simp add: binary64_def)
    then have "(2::real) ^ 53 \<le> real n" using binary64_pos_large [OF large] by simp
    then have "(2::nat) ^ 53 \<le> n" by (metis of_nat_le_iff of_nat_numeral of_nat_power)
    then show ?thesis using assms(1) by simp
  qed
qed

lemma shortest_safe:
  assumes "n < 2 ^ 53"
  shows "shortest n = n"
proof (cases "concat (map (candidates n) [1..<18])")
  case Nil
  show ?thesis unfolding shortest_def Nil by simp
next
  case (Cons v vs)
  then have "v \<in> set (concat (map (candidates n) [1..<18]))" by simp
  then obtain k where "v \<in> set (candidates n k)" by auto
  then have "v = n" using candidates_safe [OF assms] by blast
  then show ?thesis unfolding shortest_def Cons by simp
qed

lemma natToString_length: "0 < k \<Longrightarrow> n < 10 ^ k \<Longrightarrow> length (natToString n) \<le> k"
proof (induction k arbitrary: n)
  case 0
  then show ?case by simp
next
  case (Suc k)
  show ?case
  proof (cases "n < 10")
    case True
    then show ?thesis by (subst natToString.simps) simp
  next
    case False
    then have k: "0 < k" using Suc.prems(2) by (cases k) simp_all
    have "n div 10 < 10 ^ k" using Suc.prems(2) by (simp add: less_mult_imp_div_less mult.commute)
    then have "length (natToString (n div 10)) \<le> k" using Suc.IH [OF k] by simp
    then show ?thesis using False by (subst natToString.simps) simp
  qed
qed

lemma numberToString_safe:
  assumes "0 \<le> n" "n < 2 ^ 53"
  shows "numberToString (Finite n) = natToString (nat n)"
proof (cases "n = 0")
  case True
  then show ?thesis by (simp add: str_def natToString.simps digit_char_def)
next
  case False
  have lt: "nat n < 2 ^ 53" using assms by (simp add: nat_less_iff)
  have "(2::nat) ^ 53 \<le> 10 ^ 21" by simp
  then have "nat n < 10 ^ 21" using lt by linarith
  then have "ndigits (nat n) \<le> 21"
    unfolding ndigits_def by (intro natToString_length) simp_all
  then show ?thesis
    using False assms(1) by (simp add: positiveToString_def Let_def shortest_safe [OF lt])
qed

subsection \<open>formatTime\<close>

lemma natToString_digit: "n < 10 \<Longrightarrow> natToString n = [digit_char n]"
  by (simp add: natToString.simps)

lemma natToString_two: "10 \<le> n \<Longrightarrow> n < 100 \<Longrightarrow> natToString n = two_digits n"
proof -
  assume a: "10 \<le> n" and b: "n < 100"
  have "n div 10 < 10" using b by simp
  then have "natToString (n div 10) = [digit_char (n div 10)]"
    by (rule natToString_digit)
  moreover have "natToString n = natToString (n div 10) @ [digit_char (n mod 10)]"
    using a by (subst natToString.simps) simp
  ultimately show ?thesis by (simp add: two_digits_def)
qed

lemma digit_char_zero:
  assumes "d < 10"
  shows "digit_char d = digit_char 0 \<longleftrightarrow> d = 0"
proof
  assume "digit_char d = digit_char 0"
  then have "unat (of_nat (48 + d) :: code_unit) = unat (of_nat 48 :: code_unit)"
    by (simp add: digit_char_def)
  moreover have "unat (of_nat (48 + d) :: code_unit) = 48 + d"
    using assms by (intro unat_unit) simp
  moreover have "unat (of_nat 48 :: code_unit) = 48"
    by (intro unat_unit) simp
  ultimately show "d = 0" by simp
qed simp

lemma natToString_nonempty: "natToString n \<noteq> []"
  by (subst natToString.simps) simp

text \<open>The rendering of a number has no leading zero, except for 0 itself.\<close>

lemma natToString_no_leading_zero: "hd (natToString n) = digit_char 0 \<longleftrightarrow> n = 0"
proof (induction n rule: natToString.induct)
  case (1 n)
  show ?case
  proof (cases "n < 10")
    case True
    then show ?thesis by (simp add: natToString_digit digit_char_zero)
  next
    case False
    then have "natToString n = natToString (n div 10) @ [digit_char (n mod 10)]"
      by (subst natToString.simps) simp
    then have "hd (natToString n) = hd (natToString (n div 10))"
      by (simp add: natToString_nonempty)
    moreover have "n div 10 \<noteq> 0" "n \<noteq> 0" using False by simp_all
    ultimately show ?thesis using 1 False by simp
  qed
qed

lemma formatTime_safe:
  assumes "0 \<le> s" "s < 2 ^ 53"
  shows "formatTime s = natToString (nat (s div 60)) @ str '':'' @ two_digits (nat (s mod 60))"
proof -
  have n: "Number s = Finite (of_int s)"
    using assms by (simp add: Number_def binary64_int)
  have m: "Math_floor (divide_by (Number s) 60) = Finite (s div 60)"
    unfolding n by (rule floor_divide_60 [OF assms])
  have r: "Math_floor (remainder_by (Number s) 60) = Finite (s mod 60)"
    unfolding n by (rule remainder_60 [OF assms(1)])
  have d: "0 \<le> s div 60" "s div 60 < 2 ^ 53"
    using assms by (simp_all add: pos_imp_zdiv_nonneg_iff div_le_dividend)
  have ms: "numberToString (Finite (s div 60)) = natToString (nat (s div 60))"
    by (rule numberToString_safe [OF d])
  have "s mod 60 < 60" by simp
  also have "(60::int) \<le> 2 ^ 53" by simp
  finally have "s mod 60 < 2 ^ 53" .
  then have ss: "numberToString (Finite (s mod 60)) = natToString (nat (s mod 60))"
    by (intro numberToString_safe) simp_all
  show ?thesis
  proof (cases "s mod 60 < 10")
    case True
    then have "nat (s mod 60) < 10" by simp
    then have "natToString (nat (s mod 60)) = [digit_char (nat (s mod 60))]"
      "two_digits (nat (s mod 60)) = str ''0'' @ [digit_char (nat (s mod 60))]"
      by (simp_all add: natToString_digit two_digits_def str_def digit_char_def)
    then show ?thesis using True by (simp add: formatTime_def Let_def m r ms ss del: numberToString.simps)
  next
    case False
    have "s mod 60 < 60" by simp
    then have "10 \<le> nat (s mod 60)" "nat (s mod 60) < 100" using False by simp_all
    then have "natToString (nat (s mod 60)) = two_digits (nat (s mod 60))"
      by (rule natToString_two)
    then show ?thesis using False by (simp add: formatTime_def Let_def m r ms ss del: numberToString.simps)
  qed
qed

lemma exponent_eq:
  assumes "2 ^ k \<le> x" "x < 2 ^ Suc k"
  shows "exponent x = int k"
proof -
  have "1 \<le> x" using assms(1) by (meson one_le_numeral one_le_power order_trans)
  then have "exponent x \<le> int (Suc k) - 1" using assms(2) by (rule exponent_le)
  then show ?thesis using exponent_ge [OF assms(1)] by simp
qed

lemma Number_large: "Number 72057594037928096 = Finite 72057594037928096"
proof -
  have "exponent 72057594037928096 = int 56"
    by (rule exponent_eq) simp_all
  then show ?thesis
    by (simp add: Number_def binary64_def binary64_pos_def Let_def pow2_def round_half_even_def
        frac_def)
qed

lemma quotient_large: "divide_by (Finite 72057594037928096) 60 = Finite 1200959900632135"
proof -
  have "exponent (72057594037928096 / 60) = int 50"
    by (rule exponent_eq) simp_all
  then show ?thesis
    by (simp add: binary64_def binary64_pos_def Let_def pow2_def round_half_even_def frac_def)
qed


text \<open>
  Claim C5, as the specification states it for every integer \<open>s \<ge> 0\<close>, fails at
  \<open>s = 2\<^sup>5\<^sup>6 + 160\<close>, which is a Number: the quotient \<open>s / 60\<close> is rounded to the nearest
  Number, the integer 1200959900632135, which is above the exact quotient; the minutes
  are this integer, while the floor of \<open>s / 60\<close> is 1200959900632134.
\<close>

theorem formatTime_large_counterexample:
  "formatTime 72057594037928096 = str ''1200959900632135:56'' \<and>
   natToString (nat (72057594037928096 div 60)) @ str '':'' @ two_digits (nat (72057594037928096 mod 60)) =
     str ''1200959900632134:56''"
proof -
  have m: "numberToString (Finite 1200959900632135) = natToString 1200959900632135"
    using numberToString_safe [of 1200959900632135] by simp
  have s: "numberToString (Finite 56) = natToString 56"
    using numberToString_safe [of 56] by simp
  have r: "remainder_by (Finite 72057594037928096) 60 = Finite 56"
    by simp
  have d: "natToString 1200959900632135 = str ''1200959900632135''"
    "natToString 1200959900632134 = str ''1200959900632134''" "natToString 56 = str ''56''"
    by (simp_all add: natToString.simps digit_char_def str_def)
  have "formatTime 72057594037928096 = str ''1200959900632135'' @ str '':'' @ str ''56''"
    unfolding formatTime_def Let_def Number_large quotient_large r
    by (simp add: m s d del: numberToString.simps)
  moreover have "natToString (nat (72057594037928096 div 60)) @ str '':'' @
      two_digits (nat (72057594037928096 mod 60)) = str ''1200959900632134'' @ str '':'' @ str ''56''"
    by (simp add: d two_digits_def digit_char_def) (simp add: str_def)
  ultimately show ?thesis by (simp add: str_def)
qed

text \<open>
  Claim C5, amended. For every integer \<open>s\<close> with \<open>0 \<le> s < 2\<^sup>5\<^sup>3\<close>, \<open>formatTime s\<close> is the
  decimal rendering of \<open>s div 60\<close> without padding, a colon, and \<open>s mod 60\<close> rendered
  with two digits; and 0, 59, 60, 225 and 3661 give "0:00", "0:59", "1:00", "3:45" and
  "61:01".
\<close>

theorem formatTime_format:
  "(0 \<le> s \<and> s < 2 ^ 53 \<longrightarrow>
      formatTime s = natToString (nat (s div 60)) @ str '':'' @ two_digits (nat (s mod 60))) \<and>
   formatTime 0 = str ''0:00'' \<and> formatTime 59 = str ''0:59'' \<and> formatTime 60 = str ''1:00'' \<and>
   formatTime 225 = str ''3:45'' \<and> formatTime 3661 = str ''61:01''"
proof -
  have d: "natToString 0 = str ''0''" "natToString (Suc 0) = str ''1''" "natToString 3 = str ''3''"
    "natToString 61 = str ''61''"
    by (simp_all add: natToString.simps digit_char_def str_def)
  have t: "two_digits 0 = str ''00''" "two_digits 59 = str ''59''" "two_digits 45 = str ''45''"
    "two_digits (Suc 0) = str ''01''"
    by (simp_all add: two_digits_def digit_char_def str_def)
  have "formatTime 0 = str ''0'' @ str '':'' @ str ''00''"
    using formatTime_safe [of 0] by (simp add: d t)
  moreover have "formatTime 59 = str ''0'' @ str '':'' @ str ''59''"
    using formatTime_safe [of 59] by (simp add: d t)
  moreover have "formatTime 60 = str ''1'' @ str '':'' @ str ''00''"
    using formatTime_safe [of 60] by (simp add: d t)
  moreover have "formatTime 225 = str ''3'' @ str '':'' @ str ''45''"
    using formatTime_safe [of 225] by (simp add: d t)
  moreover have "formatTime 3661 = str ''61'' @ str '':'' @ str ''01''"
    using formatTime_safe [of 3661] by (simp add: d t)
  ultimately show ?thesis
    using formatTime_safe [of s] by (simp add: str_def)
qed

theorem formatTime_format_witness:
  "(0::int) \<le> 225 \<and> (225::int) < 2 ^ 53 \<and>
   formatTime 225 = natToString (nat (225 div 60)) @ str '':'' @ two_digits (nat (225 mod 60))"
  using formatTime_format [of 225] by simp

text \<open>Beyond \<open>2\<^sup>5\<^sup>3\<close> the argument itself is rounded.\<close>

lemma Number_rounds: "Number (2 ^ 53 + 1) = Finite (2 ^ 53)"
proof -
  have "exponent (2 ^ 53 + 1) = int 53"
    by (rule exponent_eq) simp_all
  then show ?thesis
    by (simp add: Number_def binary64_def binary64_pos_def Let_def pow2_def round_half_even_def
        frac_def)
qed

text \<open>
  Beyond \<open>2\<^sup>5\<^sup>3\<close> a Number is written with the fewest digits that denote it, and from
  \<open>10\<^sup>2\<^sup>1\<close> on with an exponent: \<open>2\<^sup>6\<^sup>0\<close> and \<open>10\<^sup>2\<^sup>1\<close>.
\<close>

lemma bits_numeral:
  "bits (numeral (Num.Bit0 n)) = Suc (bits (numeral n))"
  "bits (numeral (Num.Bit1 n)) = Suc (bits (numeral n))"
  "bits (Suc 0) = Suc 0" "bits 1 = Suc 0" "bits 0 = 0"
  by (subst bits.simps, simp add: bits.simps)+

lemma upto_18: "[1..<18] = [1, 2, 3, 4, 5, 6, 7, 8, 9, 10, 11, 12, 13, 14, 15, 16, 17]"
  by (simp add: upt_rec)

lemma ndigits_large: "ndigits 1152921504606846976 = 19" "ndigits 1152921504606847000 = 19"
  "ndigits 1000000000000000000000 = 22"
  by (simp_all add: ndigits_def natToString.simps)

lemma candidates_large:
  "candidates 1152921504606846976 1 = []"
  "candidates 1152921504606846976 2 = []"
  "candidates 1152921504606846976 3 = []"
  "candidates 1152921504606846976 4 = []"
  "candidates 1152921504606846976 5 = []"
  "candidates 1152921504606846976 6 = []"
  "candidates 1152921504606846976 7 = []"
  "candidates 1152921504606846976 8 = []"
  "candidates 1152921504606846976 9 = []"
  "candidates 1152921504606846976 10 = []"
  "candidates 1152921504606846976 11 = []"
  "candidates 1152921504606846976 12 = []"
  "candidates 1152921504606846976 13 = []"
  "candidates 1152921504606846976 14 = []"
  "candidates 1152921504606846976 15 = []"
  "candidates 1152921504606846976 16 = [1152921504606847000]"
  apply (simp_all add: candidates_def ndigits_large Let_def)
  apply (simp_all add: binary64_def binary64_pos_def exponent_def bits_numeral Let_def pow2_def
      round_half_even_def frac_def)
  done

lemma numberToString_large:
  "numberToString (Finite 1152921504606846976) = str ''1152921504606847000''"
proof -
  have "shortest 1152921504606846976 = 1152921504606847000"
    unfolding shortest_def upto_18 by (simp add: candidates_large del: One_nat_def)
  then show ?thesis
    by (simp add: positiveToString_def Let_def ndigits_large)
       (simp add: natToString.simps digit_char_def str_def)
qed

lemma candidates_exponent:
  "candidates 1000000000000000000000 1 = [1000000000000000000000]"
  apply (simp add: candidates_def ndigits_large Let_def)
  apply (simp add: binary64_def binary64_pos_def exponent_def bits_numeral Let_def pow2_def
      round_half_even_def frac_def)
  done

lemma numberToString_exponent:
  "numberToString (Finite 1000000000000000000000) = str ''1e+21''"
proof -
  have "shortest 1000000000000000000000 = 1000000000000000000000"
    unfolding shortest_def upto_18 by (simp add: candidates_exponent del: One_nat_def)
  then show ?thesis
    by (simp add: positiveToString_def Let_def ndigits_large)
       (simp add: strip_zeros.simps natToString.simps digit_char_def str_def)
qed

subsection \<open>getImage\<close>

lemma link_at_in_range: "i < length vs \<Longrightarrow> link_at vs i = Inr (link (vs ! i))"
  by (simp add: link_at_def at_index_def)

text \<open>
  Claim C8. \<open>getImage\<close> returns the placeholder path for a boolean image; for a list of
  three variants it returns the link at index 0 for "small", at index 1 for "medium",
  and at index 2 for "large", for no quality and for any other quality.
\<close>

theorem getImage_selects:
  "getImage (ImageBool b) q = Inr (str ''/images/logo512.png'') \<and>
   (length vs = 3 \<longrightarrow>
      getImage (ImageList vs) (Some (str ''small'')) = Inr (link (vs ! 0)) \<and>
      getImage (ImageList vs) (Some (str ''medium'')) = Inr (link (vs ! 1)) \<and>
      getImage (ImageList vs) (Some (str ''large'')) = Inr (link (vs ! 2)) \<and>
      getImage (ImageList vs) None = Inr (link (vs ! 2)) \<and>
      (q \<noteq> Some (str ''small'') \<and> q \<noteq> Some (str ''medium'') \<longrightarrow>
         getImage (ImageList vs) q = Inr (link (vs ! 2))))"
proof -
  have ne: "str ''small'' \<noteq> str ''large''" "str ''small'' \<noteq> str ''medium''"
    "str ''medium'' \<noteq> str ''large''"
    by (simp_all add: str_def)
  show ?thesis
    using ne by (auto simp: getImage_def link_at_in_range)
qed

theorem getImage_selects_witness:
  "getImage (ImageList [\<lparr>link = str ''s''\<rparr>, \<lparr>link = str ''m''\<rparr>, \<lparr>link = str ''l''\<rparr>])
     (Some (str ''small'')) = Inr (str ''s'') \<and>
   getImage (ImageList [\<lparr>link = str ''s''\<rparr>, \<lparr>link = str ''m''\<rparr>, \<lparr>link = str ''l''\<rparr>])
     None = Inr (str ''l'') \<and>
   getImage (ImageList [\<lparr>link = str ''s''\<rparr>, \<lparr>link = str ''m''\<rparr>, \<lparr>link = str ''l''\<rparr>])
     (Some (str ''huge'')) = Inr (str ''l'') \<and>
   getImage (ImageBool False) None = Inr (str ''/images/logo512.png'')"
proof -
  have ne: "str ''huge'' \<noteq> str ''small''" "str ''huge'' \<noteq> str ''medium''"
    by (simp_all add: str_def)
  show ?thesis
    using ne
      getImage_selects [of False None
        "[\<lparr>link = str ''s''\<rparr>, \<lparr>link = str ''m''\<rparr>, \<lparr>link = str ''l''\<rparr>]"]
      getImage_selects [of False "Some (str ''huge'')"
        "[\<lparr>link = str ''s''\<rparr>, \<lparr>link = str ''m''\<rparr>, \<lparr>link = str ''l''\<rparr>]"]
    by simp
qed

subsection \<open>getArtists\<close>

lemma first_seen_set: "set (first_seen xs) = set xs"
  by (induction xs) auto

lemma first_seen_distinct: "distinct (first_seen xs)"
  by (induction xs) (auto simp: distinct_removeAll)

lemma fold_set_add:
  "fold set_add xs acc = acc @ filter (\<lambda>x. x \<notin> set acc) (first_seen xs)"
proof (induction xs arbitrary: acc)
  case Nil
  show ?case by simp
next
  case (Cons x xs)
  have r: "filter (\<lambda>y. y \<notin> set acc \<and> y \<noteq> x) l = filter (\<lambda>y. y \<notin> set acc) (removeAll x l)" for l
    by (induction l) auto
  show ?case
  proof (cases "x \<in> set acc")
    case True
    then have "filter (\<lambda>y. y \<notin> set acc) l = filter (\<lambda>y. y \<notin> set acc) (removeAll x l)" for l
      by (induction l) auto
    then show ?thesis using True Cons.IH [of acc] by (simp add: set_add_def)
  next
    case False
    have "fold set_add (x # xs) acc = fold set_add xs (acc @ [x])"
      using False by (simp add: set_add_def)
    also have "\<dots> = (acc @ [x]) @ filter (\<lambda>y. y \<notin> set (acc @ [x])) (first_seen xs)"
      by (rule Cons.IH)
    also have "\<dots> = acc @ x # filter (\<lambda>y. y \<notin> set acc) (removeAll x (first_seen xs))"
      using r [of "first_seen xs"] by (simp add: conj_commute)
    finally show ?thesis using False by simp
  qed
qed

lemma addArtistsToList_fold:
  "addArtistsToList (getArtistsFromList f) acc = fold set_add (or_empty (getArtistsFromList f)) acc"
  by (cases f) (simp_all add: addArtistsToList_def getArtistsFromList_def or_empty_def)

text \<open>
  On every item: the result joins the values read from the three fields, each kept at
  its first occurrence, an \<open>undefined\<close> among them included.
\<close>

lemma getArtists_values:
  "getArtists it =
     join_values (str '', '')
       (first_seen (or_empty (getArtistsFromList (artists it)) @
                    or_empty (getArtistsFromList (primaryArtists it)) @
                    or_empty (getArtistsFromList (featuredArtists it))))"
proof -
  have "fold set_add (a @ b @ c) [] = first_seen (a @ b @ c)" for a b c :: "jsstring option list"
    by (simp only: fold_set_add [of "a @ b @ c" "[]"]) simp
  then show ?thesis
    by (simp add: getArtists_def addArtistsToList_fold Let_def)
qed

lemma structured_values:
  "structured f \<Longrightarrow> or_empty (getArtistsFromList f) = map Some (normalized_names f)"
proof (cases f)
  case (ArtistList l)
  assume "structured f"
  then have "list_all is_record l" using ArtistList by (simp add: structured_def)
  then have "map entry_name l =
      map Some (concat (map (\<lambda>e. case e of ArtistRecord a \<Rightarrow> [AlbumArtist.name a] | PlainString s \<Rightarrow> []) l))"
    by (induction l) (auto simp: is_record_def entry_name_def split: artist_entry.splits)
  then show ?thesis
    using ArtistList by (simp add: getArtistsFromList_def or_empty_def normalized_names_def)
qed (auto simp: getArtistsFromList_def or_empty_def normalized_names_def)

lemma first_seen_map_Some: "first_seen (map Some xs) = map Some (first_seen xs)"
proof (induction xs)
  case Nil
  show ?case by simp
next
  case (Cons x xs)
  have "removeAll (Some x) (map Some l) = map Some (removeAll x l)" for l :: "'a list"
    by (induction l) auto
  then show ?case using Cons by simp
qed

lemma join_values_Some: "join_values sep (map Some xs) = join sep xs"
  by (simp add: join_values_def comp_def)

lemma getArtists_first_seen:
  assumes "structured (artists it)" "structured (primaryArtists it)"
    "structured (featuredArtists it)"
  shows "getArtists it =
     join (str '', '')
       (first_seen (normalized_names (artists it) @ normalized_names (primaryArtists it) @
                    normalized_names (featuredArtists it)))"
proof -
  have "or_empty (getArtistsFromList (artists it)) @
        or_empty (getArtistsFromList (primaryArtists it)) @
        or_empty (getArtistsFromList (featuredArtists it)) =
      map Some (normalized_names (artists it) @ normalized_names (primaryArtists it) @
                normalized_names (featuredArtists it))"
    using assms by (simp add: structured_values)
  then show ?thesis
    by (simp only: getArtists_values first_seen_map_Some join_values_Some)
qed

lemma split_B_C: "split (str '', '') (str ''B, C'') = [str ''B'', str ''C'']"
  by code_simp

text \<open>
  Claim C1, as the specification states it, fails at its example: in
  \<open>artists=["A","B"]\<close> the entries are plain strings, \<open>artist.name\<close> is \<open>undefined\<close> for
  both, the set keeps \<open>undefined\<close> once, and \<open>join\<close> renders it as the empty string.
\<close>

theorem getArtists_plain_strings_counterexample:
  "getArtists \<lparr>name = [], year = [],
       artists = ArtistList [PlainString (str ''A''), PlainString (str ''B'')],
       primaryArtists = ArtistString (str ''B, C''), primaryArtistsId = [],
       featuredArtists = ArtistList [], downloadUrl = []\<rparr> = str '', B, C'' \<and>
   getArtists \<lparr>name = [], year = [],
       artists = ArtistList [PlainString (str ''A''), PlainString (str ''B'')],
       primaryArtists = ArtistString (str ''B, C''), primaryArtistsId = [],
       featuredArtists = ArtistList [], downloadUrl = []\<rparr> \<noteq> str ''A, B, C''"
proof -
  have ne: "str ''B, C'' \<noteq> []" "str ''B'' \<noteq> str ''C''" "str '', B, C'' \<noteq> str ''A, B, C''"
    by (simp_all add: str_def)
  have "getArtists \<lparr>name = [], year = [],
       artists = ArtistList [PlainString (str ''A''), PlainString (str ''B'')],
       primaryArtists = ArtistString (str ''B, C''), primaryArtistsId = [],
       featuredArtists = ArtistList [], downloadUrl = []\<rparr> =
       join_values (str '', '') [None, Some (str ''B''), Some (str ''C'')]"
    using ne(1,2)
    by (simp add: getArtists_values getArtistsFromList_def or_empty_def entry_name_def split_B_C)
  also have "\<dots> = str '', B, C''"
    by (simp add: join_values_def str_def)
  finally show ?thesis using ne(3) by simp
qed

text \<open>
  Claim C1, amended. For every item whose fields \<open>artists\<close>, \<open>primaryArtists\<close> and
  \<open>featuredArtists\<close> are each a string or a list of \<open>{name, url}\<close> records,
  \<open>getArtists\<close> returns the names normalized from these fields, in this order, with
  every name kept at its first occurrence only, joined by \<open>", "\<close>; for the artists
  \<open>[{name: "A", ...}, {name: "B", ...}]\<close>, the primary artists "B, C" and no featured
  artist it returns "A, B, C".
\<close>

theorem getArtists_union:
  "(structured (artists it) \<and> structured (primaryArtists it) \<and> structured (featuredArtists it) \<longrightarrow>
      getArtists it =
        join (str '', '')
          (first_seen (normalized_names (artists it) @ normalized_names (primaryArtists it) @
                       normalized_names (featuredArtists it)))) \<and>
   getArtists \<lparr>name = n, year = y,
       artists = ArtistList [ArtistRecord \<lparr>AlbumArtist.name = str ''A'', url = u\<rparr>,
                             ArtistRecord \<lparr>AlbumArtist.name = str ''B'', url = v\<rparr>],
       primaryArtists = ArtistString (str ''B, C''), primaryArtistsId = ids,
       featuredArtists = ArtistList [], downloadUrl = d\<rparr> = str ''A, B, C''"
proof -
  have ne: "str ''B, C'' \<noteq> []" "str ''A'' \<noteq> str ''B''" "str ''A'' \<noteq> str ''C''"
    "str ''B'' \<noteq> str ''C''"
    by (simp_all add: str_def)
  have "getArtists \<lparr>name = n, year = y,
       artists = ArtistList [ArtistRecord \<lparr>AlbumArtist.name = str ''A'', url = u\<rparr>,
                             ArtistRecord \<lparr>AlbumArtist.name = str ''B'', url = v\<rparr>],
       primaryArtists = ArtistString (str ''B, C''), primaryArtistsId = ids,
       featuredArtists = ArtistList [], downloadUrl = d\<rparr> =
       join (str '', '') [str ''A'', str ''B'', str ''C'']"
    using ne
    by (subst getArtists_first_seen)
       (simp_all add: structured_def is_record_def normalized_names_def split_B_C)
  also have "\<dots> = str ''A, B, C''"
    by (simp add: str_def)
  finally show ?thesis
    using getArtists_first_seen by blast
qed

text \<open>
  The general statement at an item of two structured lists and a string, with names
  that occur in two fields.
\<close>

theorem getArtists_union_witness:
  "structured (ArtistList [ArtistRecord \<lparr>AlbumArtist.name = str ''A'', url = str ''1''\<rparr>,
                           ArtistRecord \<lparr>AlbumArtist.name = str ''B'', url = str ''2''\<rparr>]) \<and>
   structured (ArtistList [ArtistRecord \<lparr>AlbumArtist.name = str ''B'', url = str ''2''\<rparr>,
                           ArtistRecord \<lparr>AlbumArtist.name = str ''C'', url = str ''3''\<rparr>]) \<and>
   structured (ArtistString (str ''C, D'')) \<and>
   getArtists \<lparr>name = [], year = [],
       artists = ArtistList [ArtistRecord \<lparr>AlbumArtist.name = str ''A'', url = str ''1''\<rparr>,
                             ArtistRecord \<lparr>AlbumArtist.name = str ''B'', url = str ''2''\<rparr>],
       primaryArtists =
         ArtistList [ArtistRecord \<lparr>AlbumArtist.name = str ''B'', url = str ''2''\<rparr>,
                     ArtistRecord \<lparr>AlbumArtist.name = str ''C'', url = str ''3''\<rparr>],
       primaryArtistsId = [],
       featuredArtists = ArtistString (str ''C, D''), downloadUrl = []\<rparr> =
     str ''A, B, C, D''"
proof -
  have ne: "str ''C, D'' \<noteq> []" "str ''A'' \<noteq> str ''B''" "str ''A'' \<noteq> str ''C''"
    "str ''A'' \<noteq> str ''D''" "str ''B'' \<noteq> str ''C''" "str ''B'' \<noteq> str ''D''"
    "str ''C'' \<noteq> str ''D''"
    by (simp_all add: str_def)
  have sp: "split (str '', '') (str ''C, D'') = [str ''C'', str ''D'']"
    by code_simp
  have j: "str ''A'' @ str '', '' @ str ''B'' @ str '', '' @ str ''C'' @ str '', '' @ str ''D'' =
      str ''A, B, C, D''"
    by (simp add: str_def)
  have s: "structured (ArtistList [ArtistRecord \<lparr>AlbumArtist.name = str ''A'', url = str ''1''\<rparr>,
                           ArtistRecord \<lparr>AlbumArtist.name = str ''B'', url = str ''2''\<rparr>])"
    "structured (ArtistList [ArtistRecord \<lparr>AlbumArtist.name = str ''B'', url = str ''2''\<rparr>,
                           ArtistRecord \<lparr>AlbumArtist.name = str ''C'', url = str ''3''\<rparr>])"
    "structured (ArtistString (str ''C, D''))"
    by (simp_all add: structured_def is_record_def)
  show ?thesis
    using s ne getArtists_union [of "\<lparr>name = [], year = [],
       artists = ArtistList [ArtistRecord \<lparr>AlbumArtist.name = str ''A'', url = str ''1''\<rparr>,
                             ArtistRecord \<lparr>AlbumArtist.name = str ''B'', url = str ''2''\<rparr>],
       primaryArtists =
         ArtistList [ArtistRecord \<lparr>AlbumArtist.name = str ''B'', url = str ''2''\<rparr>,
                     ArtistRecord \<lparr>AlbumArtist.name = str ''C'', url = str ''3''\<rparr>],
       primaryArtistsId = [],
       featuredArtists = ArtistString (str ''C, D''), downloadUrl = []\<rparr>"]
    by (simp add: normalized_names_def sp j)
qed

subsection \<open>getArtistIds\<close>

text \<open>The identifiers that a field gives: what \<open>url\<close> reads in the entries of a list, none otherwise.\<close>

lemma or_empty_ids:
  "or_empty (getArtistIdsFromList f) = (case f of ArtistList l \<Rightarrow> map entry_url l | _ \<Rightarrow> [])"
  by (cases f) (simp_all add: or_empty_def getArtistIdsFromList_def)

lemma split_ids: "split (str '', '') (str ''7, 7, 8'') = [str ''7'', str ''7'', str ''8'']"
  by code_simp

text \<open>
  Claim C2. \<open>getArtistIds\<close> does not depend on the field \<open>artists\<close>; it returns the
  pieces of \<open>primaryArtistsId\<close> split on \<open>", "\<close>, then the \<open>url\<close>s of \<open>primaryArtists\<close>
  when it is a structured list, then the \<open>url\<close>s of \<open>featuredArtists\<close> when it is a
  structured list, nothing being removed; a field that is a plain string gives no
  identifier. At the identifiers "7, 7, 8", the primary artists with the urls "p" and
  "7" and the featured artist with the url "p" the result is 7, 7, 8, p, 7, p; with
  the same identifiers and both fields plain strings it is 7, 7, 8.
\<close>

theorem getArtistIds_concat:
  "getArtistIds it =
     map Some (split (str '', '') (primaryArtistsId it)) @
     (case primaryArtists it of ArtistList l \<Rightarrow> map entry_url l | _ \<Rightarrow> []) @
     (case featuredArtists it of ArtistList l \<Rightarrow> map entry_url l | _ \<Rightarrow> []) \<and>
   getArtistIds (it\<lparr>artists := a\<rparr>) = getArtistIds it \<and>
   getArtistIds (it\<lparr>primaryArtists := ArtistString s, featuredArtists := ArtistString t\<rparr>) =
     map Some (split (str '', '') (primaryArtistsId it)) \<and>
   getArtistIds (it\<lparr>primaryArtists := ArtistList (map ArtistRecord p),
                     featuredArtists := ArtistList (map ArtistRecord f)\<rparr>) =
     map Some (split (str '', '') (primaryArtistsId it) @ map url p @ map url f) \<and>
   getArtistIds \<lparr>name = n, year = y,
       artists = ArtistList [ArtistRecord \<lparr>AlbumArtist.name = str ''Z'', url = str ''z''\<rparr>],
       primaryArtists = ArtistList [ArtistRecord \<lparr>AlbumArtist.name = str ''A'', url = str ''p''\<rparr>,
                                    ArtistRecord \<lparr>AlbumArtist.name = str ''B'', url = str ''7''\<rparr>],
       primaryArtistsId = str ''7, 7, 8'',
       featuredArtists = ArtistList [ArtistRecord \<lparr>AlbumArtist.name = str ''C'', url = str ''p''\<rparr>],
       downloadUrl = d\<rparr> =
     [Some (str ''7''), Some (str ''7''), Some (str ''8''), Some (str ''p''), Some (str ''7''),
      Some (str ''p'')] \<and>
   getArtistIds \<lparr>name = n, year = y,
       artists = ArtistList [ArtistRecord \<lparr>AlbumArtist.name = str ''Z'', url = str ''z''\<rparr>],
       primaryArtists = ArtistString (str ''A, B''), primaryArtistsId = str ''7, 7, 8'',
       featuredArtists = ArtistString (str ''C''), downloadUrl = d\<rparr> =
     [Some (str ''7''), Some (str ''7''), Some (str ''8'')]"
  by (simp add: getArtistIds_def or_empty_ids split_ids entry_url_def comp_def)

subsection \<open>getHomeData\<close>

lemma reshape_fields:
  "Home.trending (reshape p) = Trending.albums (HomeData.trending p) @ Trending.songs (HomeData.trending p)"
  "Home.albums (reshape p) = HomeData.albums p"
  "Home.playlists (reshape p) = HomeData.playlists p"
  "Home.charts (reshape p) = HomeData.charts p"
  by (simp_all add: reshape_def)

lemma getHomeData_miss:
  assumes "homeData w = None" and "api_getHomeData w (fetches w) = Inr (Some p)"
  shows "getHomeData w = (Inr (Some (reshape p)), w\<lparr>fetches := fetches w + 1, homeData := Some p\<rparr>)"
  using assms by (simp add: getHomeData_def dispatch_setHomeData_def)

lemma getHomeData_hit:
  assumes "homeData w = Some p"
  shows "getHomeData w = (Inr (Some (reshape p)), w)"
  using assms by (simp add: getHomeData_def)

lemma getHomeData_miss_fetches:
  assumes "homeData w = None"
  shows "fetches (snd (getHomeData w)) = fetches w + 1"
  using assms
  by (simp add: getHomeData_def dispatch_setHomeData_def split: sum.splits option.splits)

text \<open>
  Claim C3. With the store as explicit state: a call with an empty cache makes exactly
  one request, and when the request yields a payload the payload is stored; a call with
  the cache populated makes no request; and a call whose payload \<open>p\<close> is present
  returns the aggregate whose \<open>trending\<close> is the trending albums of \<open>p\<close> followed by
  its trending songs, and whose \<open>albums\<close>, \<open>playlists\<close> and \<open>charts\<close> are those of
  \<open>p\<close>. In particular the second of two calls returns what the first returned.
\<close>

theorem getHomeData_cache:
  "(homeData w = None \<longrightarrow> fetches (snd (getHomeData w)) = fetches w + 1) \<and>
   (homeData w = None \<and> api_getHomeData w (fetches w) = Inr (Some p) \<longrightarrow>
      fst (getHomeData w) = Inr (Some (reshape p)) \<and>
      homeData (snd (getHomeData w)) = Some p \<and>
      fst (getHomeData (snd (getHomeData w))) = Inr (Some (reshape p)) \<and>
      fetches (snd (getHomeData (snd (getHomeData w)))) = fetches w + 1) \<and>
   (homeData w = Some p \<longrightarrow>
      fst (getHomeData w) = Inr (Some (reshape p)) \<and> snd (getHomeData w) = w) \<and>
   Home.trending (reshape p) =
     Trending.albums (HomeData.trending p) @ Trending.songs (HomeData.trending p) \<and>
   Home.albums (reshape p) = HomeData.albums p \<and>
   Home.playlists (reshape p) = HomeData.playlists p \<and>
   Home.charts (reshape p) = HomeData.charts p"
proof -
  have two: "fst (getHomeData (snd (getHomeData w))) = Inr (Some (reshape p)) \<and>
      fetches (snd (getHomeData (snd (getHomeData w)))) = fetches w + 1"
    if "homeData w = None" "api_getHomeData w (fetches w) = Inr (Some p)"
  proof -
    have "snd (getHomeData w) = w\<lparr>fetches := fetches w + 1, homeData := Some p\<rparr>"
      using getHomeData_miss [OF that] by simp
    moreover have "getHomeData (w\<lparr>fetches := fetches w + 1, homeData := Some p\<rparr>) =
        (Inr (Some (reshape p)), w\<lparr>fetches := fetches w + 1, homeData := Some p\<rparr>)"
      by (rule getHomeData_hit) simp
    ultimately show ?thesis by simp
  qed
  show ?thesis
    using two getHomeData_miss [of w p] getHomeData_hit [of w p] getHomeData_miss_fetches [of w]
    by (simp add: reshape_fields)
qed

theorem getHomeData_cache_witness:
  "fst (getHomeData \<lparr>homeData = None,
          api_getHomeData = (\<lambda>n. Inr (Some \<lparr>HomeData.trending = \<lparr>Trending.albums = [1::nat], songs = [2]\<rparr>,
             HomeData.albums = [3], HomeData.playlists = [4::nat], HomeData.charts = [5::nat]\<rparr>)),
          fetches = 0\<rparr>) =
     Inr (Some \<lparr>Home.trending = [1, 2], albums = [3], playlists = [4], charts = [5]\<rparr>) \<and>
   fetches (snd (getHomeData \<lparr>homeData = None,
          api_getHomeData = (\<lambda>n. Inr (Some \<lparr>HomeData.trending = \<lparr>Trending.albums = [1::nat], songs = [2]\<rparr>,
             HomeData.albums = [3], HomeData.playlists = [4::nat], HomeData.charts = [5::nat]\<rparr>)),
          fetches = 0\<rparr>)) = 1 \<and>
   fetches (snd (getHomeData (snd (getHomeData \<lparr>homeData = None,
          api_getHomeData = (\<lambda>n. Inr (Some \<lparr>HomeData.trending = \<lparr>Trending.albums = [1::nat], songs = [2]\<rparr>,
             HomeData.albums = [3], HomeData.playlists = [4::nat], HomeData.charts = [5::nat]\<rparr>)),
          fetches = 0\<rparr>)))) = 1 \<and>
   getHomeData \<lparr>homeData = Some \<lparr>HomeData.trending = \<lparr>Trending.albums = [1::nat], songs = [2]\<rparr>,
             HomeData.albums = [3], HomeData.playlists = [4::nat], HomeData.charts = [5::nat]\<rparr>,
          api_getHomeData = (\<lambda>n. Inl NetworkError), fetches = 7\<rparr> =
     (Inr (Some \<lparr>Home.trending = [1, 2], albums = [3], playlists = [4], charts = [5]\<rparr>),
      \<lparr>homeData = Some \<lparr>HomeData.trending = \<lparr>Trending.albums = [1::nat], songs = [2]\<rparr>,
             HomeData.albums = [3], HomeData.playlists = [4::nat], HomeData.charts = [5::nat]\<rparr>,
          api_getHomeData = (\<lambda>n. Inl NetworkError), fetches = 7\<rparr>)"
  using getHomeData_cache [of "\<lparr>homeData = None,
          api_getHomeData = (\<lambda>n. Inr (Some \<lparr>HomeData.trending = \<lparr>Trending.albums = [1::nat], songs = [2]\<rparr>,
             HomeData.albums = [3], HomeData.playlists = [4::nat], HomeData.charts = [5::nat]\<rparr>)),
          fetches = 0\<rparr>"
       "\<lparr>HomeData.trending = \<lparr>Trending.albums = [1::nat], songs = [2]\<rparr>,
             HomeData.albums = [3], HomeData.playlists = [4::nat], HomeData.charts = [5::nat]\<rparr>"]
    getHomeData_cache [of "\<lparr>homeData = Some \<lparr>HomeData.trending = \<lparr>Trending.albums = [1::nat], songs = [2]\<rparr>,
             HomeData.albums = [3], HomeData.playlists = [4::nat], HomeData.charts = [5::nat]\<rparr>,
          api_getHomeData = (\<lambda>n. Inl NetworkError), fetches = 7\<rparr>"
       "\<lparr>HomeData.trending = \<lparr>Trending.albums = [1::nat], songs = [2]\<rparr>,
             HomeData.albums = [3], HomeData.playlists = [4::nat], HomeData.charts = [5::nat]\<rparr>"]
  by (simp add: reshape_def prod_eq_iff)

subsection \<open>clearUrl\<close>

text \<open>
  Claim C6, as the specification states it, fails: two consecutive spaces give two
  hyphens, which the last replacement turns into one.
\<close>

theorem clearUrl_two_spaces_counterexample:
  "clearUrl (str ''A  B'') \<noteq> str ''a--b''"
proof -
  have "clearUrl (str ''A  B'') = str ''a-b''" by code_simp
  moreover have "str ''a-b'' \<noteq> str ''a--b''" by (simp add: str_def)
  ultimately show ?thesis by simp
qed

text \<open>
  Claim C6, amended. \<open>clearUrl\<close> maps "Hello, World!" to "hello-world" and "A  B" (two
  spaces) to "a-b"; the double hyphen that the single pass leaves appears from three
  consecutive spaces on: "A   B" gives "a--b".
\<close>

theorem clearUrl_examples:
  "clearUrl (str ''Hello, World!'') = str ''hello-world'' \<and>
   clearUrl (str ''A  B'') = str ''a-b'' \<and>
   clearUrl (str ''A   B'') = str ''a--b''"
  by code_simp

text \<open>
  Beyond ASCII: the Kelvin sign gives \<open>k\<close>, the capital I with dot above gives \<open>i\<close> (the
  combining dot is removed), and a letter that is not a word character, here U+00C9, is
  removed.
\<close>

lemma clearUrl_beyond_ascii:
  "clearUrl [0x212A, 0x20, 0x0130, 0xC9] = str ''k-i''"
  by code_simp

subsection \<open>isJioSaavnLink\<close>


lemma repeat_sound:
  assumes m: "\<And>s t. t \<in> set (m s) \<Longrightarrow> \<exists>u\<in>A. s = u @ t"
  shows "t \<in> set (repeat m n s) \<Longrightarrow> \<exists>ws. ws \<noteq> [] \<and> set ws \<subseteq> A \<and> s = concat ws @ t"
proof (induction n arbitrary: s)
  case 0
  then show ?case by simp
next
  case (Suc n)
  from Suc.prems obtain t' where t': "t' \<in> set (m s)"
    and d: "(length t' < length s \<and> t \<in> set (repeat m n t')) \<or> t = t'"
    by (auto split: if_splits)
  from m [OF t'] obtain u where u: "u \<in> A" "s = u @ t'" by blast
  from d show ?case
  proof
    assume "length t' < length s \<and> t \<in> set (repeat m n t')"
    then obtain ws where "ws \<noteq> []" "set ws \<subseteq> A" "t' = concat ws @ t"
      using Suc.IH by blast
    then have "u # ws \<noteq> [] \<and> set (u # ws) \<subseteq> A \<and> s = concat (u # ws) @ t"
      using u by simp
    then show ?thesis by blast
  next
    assume "t = t'"
    then have "[u] \<noteq> [] \<and> set [u] \<subseteq> A \<and> s = concat [u] @ t"
      using u by simp
    then show ?thesis by blast
  qed
qed

lemma repeat_complete:
  assumes m: "\<And>u t. u \<in> A \<Longrightarrow> t \<in> set (m (u @ t))"
  shows "ws \<noteq> [] \<Longrightarrow> set ws \<subseteq> A \<Longrightarrow> length (concat ws @ t) < n \<Longrightarrow>
         t \<in> set (repeat m n (concat ws @ t))"
proof (induction ws arbitrary: n)
  case Nil
  then show ?case by simp
next
  case (Cons w ws)
  from Cons.prems obtain k where n: "n = Suc k" by (cases n) auto
  have w: "w \<in> A" using Cons.prems by simp
  show ?case
  proof (cases "ws = []")
    case True
    have "t \<in> set (m (w @ t))" using m [OF w] .
    then show ?thesis using True n by auto
  next
    case False
    let ?t' = "concat ws @ t"
    show ?thesis
    proof (cases "w = []")
      case True
      have "t \<in> set (repeat m n ?t')"
        using Cons.IH [OF False, of n] Cons.prems True by simp
      then show ?thesis using True by simp
    next
      case nonempty: False
      have in_m: "?t' \<in> set (m (w @ ?t'))" using m [OF w] .
      have len: "length ?t' < length (w @ ?t')" using nonempty by simp
      have lw: "Suc 0 \<le> length w" using nonempty by (cases w) simp_all
      have "length w + length ?t' < Suc k" using Cons.prems(3) n by simp
      with lw have "length ?t' < k" by linarith
      then have rep: "t \<in> set (repeat m k ?t')"
        using Cons.IH [OF False, of k] Cons.prems by simp
      have "\<exists>x\<in>set (m (w @ ?t')).
          t \<in> set ((if length x < length (w @ ?t') then repeat m k x else []) @ [x])"
        using in_m len rep by (intro bexI [of _ ?t']) simp_all
      then show ?thesis using n by simp
    qed
  qed
qed

lemma match_lang: "set (match r s) = {t. \<exists>u\<in>lang r. s = u @ t}"
proof (induction r arbitrary: s)
  case (Lit w)
  show ?case by (auto simp: prefix_def)
next
  case Dot
  show ?case by (cases s) auto
next
  case (Seq a b)
  show ?case
  proof (rule set_eqI)
    fix t
    have "t \<in> set (match (Seq a b) s) \<longleftrightarrow> (\<exists>t'. t' \<in> set (match a s) \<and> t \<in> set (match b t'))"
      by auto
    also have "\<dots> \<longleftrightarrow> (\<exists>t'. (\<exists>u\<in>lang a. s = u @ t') \<and> (\<exists>v\<in>lang b. t' = v @ t))"
      by (simp add: Seq.IH)
    also have "\<dots> \<longleftrightarrow> (\<exists>x\<in>lang (Seq a b). s = x @ t)"
      by fastforce
    finally show "t \<in> set (match (Seq a b) s) \<longleftrightarrow> t \<in> {t. \<exists>u\<in>lang (Seq a b). s = u @ t}"
      by simp
  qed
next
  case (Alt a b)
  show ?case by (auto simp: Alt.IH)
next
  case (Opt a)
  show ?case by (auto simp: Opt.IH)
next
  case (Plus a)
  show ?case
  proof (rule set_eqI)
    fix t
    have m1: "\<And>s t. t \<in> set (match a s) \<Longrightarrow> \<exists>u\<in>lang a. s = u @ t"
      by (simp add: Plus.IH)
    have m2: "\<And>u t. u \<in> lang a \<Longrightarrow> t \<in> set (match a (u @ t))"
      by (auto simp add: Plus.IH)
    have snd: "\<exists>ws. ws \<noteq> [] \<and> set ws \<subseteq> lang a \<and> s = concat ws @ t"
      if "t \<in> set (repeat (match a) (Suc (length s)) s)"
      using repeat_sound [of "match a" "lang a", OF m1 that] .
    have cmp: "t \<in> set (repeat (match a) (Suc (length s)) s)"
      if "ws \<noteq> []" "set ws \<subseteq> lang a" "s = concat ws @ t" for ws
      using repeat_complete [of "lang a" "match a" ws t "Suc (length s)", OF m2 that(1,2)] that(3)
      by simp
    show "t \<in> set (match (Plus a) s) \<longleftrightarrow> t \<in> {t. \<exists>u\<in>lang (Plus a). s = u @ t}"
      using snd cmp by auto
  qed
qed

lemma test_anchored_lang: "test_anchored r s \<longleftrightarrow> s \<in> lang r"
  by (simp add: test_anchored_def match_lang)

lemma lang_Plus_Dot:
  "lang (Plus Dot) = {w. w \<noteq> [] \<and> (\<forall>c\<in>set w. \<not> is_line_terminator c)}"
proof (rule set_eqI, rule iffI)
  fix w assume "w \<in> lang (Plus Dot)"
  then obtain ws where ws: "ws \<noteq> []" "set ws \<subseteq> {[c] | c. \<not> is_line_terminator c}" "w = concat ws"
    by auto
  have "\<forall>c\<in>set (concat ws). \<not> is_line_terminator c" using ws(2) by auto
  moreover have "concat ws \<noteq> []" using ws(1,2) by (cases ws) auto
  ultimately show "w \<in> {w. w \<noteq> [] \<and> (\<forall>c\<in>set w. \<not> is_line_terminator c)}"
    using ws(3) by simp
next
  fix w assume "w \<in> {w. w \<noteq> [] \<and> (\<forall>c\<in>set w. \<not> is_line_terminator c)}"
  then have w: "w \<noteq> []" "\<forall>c\<in>set w. \<not> is_line_terminator c" by simp_all
  let ?ws = "map (\<lambda>c. [c]) w"
  have "concat ?ws = w" by (induction w) auto
  moreover have "?ws \<noteq> []" using w(1) by simp
  moreover have "set ?ws \<subseteq> lang Dot" using w(2) by auto
  ultimately have "\<exists>ws. w = concat ws \<and> ws \<noteq> [] \<and> set ws \<subseteq> lang Dot"
    by metis
  then show "w \<in> lang (Plus Dot)"
    by (simp del: lang.simps(2))
qed

lemma lang_Seq_iff: "s \<in> lang (Seq a b) \<longleftrightarrow> (\<exists>u v. s = u @ v \<and> u \<in> lang a \<and> v \<in> lang b)"
  by auto

lemma lang_Seq6:
  "s \<in> lang (Seq a (Seq b (Seq (Lit l) (Seq c (Seq (Lit m) d))))) \<longleftrightarrow>
     (\<exists>p w g r. s = p @ w @ l @ g @ m @ r \<and> p \<in> lang a \<and> w \<in> lang b \<and> g \<in> lang c \<and> r \<in> lang d)"
proof
  assume "s \<in> lang (Seq a (Seq b (Seq (Lit l) (Seq c (Seq (Lit m) d)))))"
  then obtain p s1 where 1: "s = p @ s1" "p \<in> lang a" "s1 \<in> lang (Seq b (Seq (Lit l) (Seq c (Seq (Lit m) d))))"
    unfolding lang_Seq_iff [of s] by blast
  from 1(3) obtain w s2 where 2: "s1 = w @ s2" "w \<in> lang b" "s2 \<in> lang (Seq (Lit l) (Seq c (Seq (Lit m) d)))"
    unfolding lang_Seq_iff [of s1] by blast
  from 2(3) obtain s3 where 3: "s2 = l @ s3" "s3 \<in> lang (Seq c (Seq (Lit m) d))"
    unfolding lang_Seq_iff [of s2] by auto
  from 3(2) obtain g s4 where 4: "s3 = g @ s4" "g \<in> lang c" "s4 \<in> lang (Seq (Lit m) d)"
    unfolding lang_Seq_iff [of s3] by blast
  from 4(3) obtain r where 5: "s4 = m @ r" "r \<in> lang d"
    unfolding lang_Seq_iff [of s4] by auto
  have "s = p @ w @ l @ g @ m @ r" using 1(1) 2(1) 3(1) 4(1) 5(1) by simp
  then show "\<exists>p w g r. s = p @ w @ l @ g @ m @ r \<and> p \<in> lang a \<and> w \<in> lang b \<and> g \<in> lang c \<and> r \<in> lang d"
    using 1(2) 2(2) 4(2) 5(2) by blast
next
  assume "\<exists>p w g r. s = p @ w @ l @ g @ m @ r \<and> p \<in> lang a \<and> w \<in> lang b \<and> g \<in> lang c \<and> r \<in> lang d"
  then obtain p w g r where s: "s = p @ w @ l @ g @ m @ r"
    and in_l: "p \<in> lang a" "w \<in> lang b" "g \<in> lang c" "r \<in> lang d"
    by blast
  have "m @ r \<in> lang (Seq (Lit m) d)" using in_l(4) by simp
  then have "g @ m @ r \<in> lang (Seq c (Seq (Lit m) d))"
    using in_l(3) unfolding lang_Seq_iff [of "g @ m @ r"] by blast
  then have "l @ g @ m @ r \<in> lang (Seq (Lit l) (Seq c (Seq (Lit m) d)))"
    unfolding lang_Seq_iff [of "l @ g @ m @ r"] by simp
  then have "w @ l @ g @ m @ r \<in> lang (Seq b (Seq (Lit l) (Seq c (Seq (Lit m) d))))"
    using in_l(2) unfolding lang_Seq_iff [of "w @ l @ g @ m @ r"] by blast
  then show "s \<in> lang (Seq a (Seq b (Seq (Lit l) (Seq c (Seq (Lit m) d)))))"
    using in_l(1) unfolding s lang_Seq_iff [of "p @ w @ l @ g @ m @ r"] by blast
qed

lemma lang_protocol:
  "lang (Opt (Seq (Lit (str ''http'')) (Seq (Opt (Lit (str ''s''))) (Lit (str ''://''))))) =
   {[], str ''http://'', str ''https://''}"
  by (auto simp: str_def)

lemma lang_www:
  "lang (Opt (Seq (Lit (str ''www'')) Dot)) =
   {w. w = [] \<or> (\<exists>c. \<not> is_line_terminator c \<and> w = str ''www'' @ [c])}"
  by auto

lemma lang_segment:
  "lang (Alt (Lit (str ''song'')) (Alt (Lit (str ''shows'')) (Alt (Lit (str ''album''))
            (Alt (Lit (str ''artist'')) (Lit (str ''featured'')))))) =
   {str ''song'', str ''shows'', str ''album'', str ''artist'', str ''featured''}"
  by auto

lemma lang_link_pattern:
  "s \<in> lang link_pattern \<longleftrightarrow>
     (\<exists>proto www seg rest.
        s = proto @ www @ str ''jiosaavn.com/'' @ seg @ str ''/'' @ rest \<and>
        proto \<in> {[], str ''http://'', str ''https://''} \<and>
        (www = [] \<or> (\<exists>c. \<not> is_line_terminator c \<and> www = str ''www'' @ [c])) \<and>
        seg \<in> {str ''song'', str ''shows'', str ''album'', str ''artist'', str ''featured''} \<and>
        rest \<noteq> [] \<and> (\<forall>c\<in>set rest. \<not> is_line_terminator c))"
  unfolding link_pattern_def lang_Seq6 lang_protocol lang_www lang_segment lang_Plus_Dot
  by simp

text \<open>
  Claim C7, as the specification states it, fails: the expression has no \<open>i\<close> flag, so
  a protocol or host in upper case is rejected.
\<close>

theorem isJioSaavnLink_case_counterexample:
  "matches_host_ignoring_case (str ''HTTPS://WWW.JIOSAAVN.COM/song/abc'') \<and>
   \<not> isJioSaavnLink (str ''HTTPS://WWW.JIOSAAVN.COM/song/abc'')"
  by code_simp

text \<open>
  Claim C7, amended. \<open>isJioSaavnLink\<close> returns true exactly for the strings that match
  \<open>^(https?://)?(www.)?jiosaavn\.com/(song|shows|album|artist|featured)/(.+)$\<close> with
  every letter matched in its own case: an optional "http://" or "https://", an optional
  "www" followed by any one code unit that is not a line terminator, "jiosaavn.com/",
  one of the five path segments, "/", and a non-empty remainder without line
  terminators. The four examples of the claim evaluate as it says.
\<close>

theorem isJioSaavnLink_exact:
  "(isJioSaavnLink s \<longleftrightarrow>
     (\<exists>proto www seg rest.
        s = proto @ www @ str ''jiosaavn.com/'' @ seg @ str ''/'' @ rest \<and>
        proto \<in> {[], str ''http://'', str ''https://''} \<and>
        (www = [] \<or> (\<exists>c. \<not> is_line_terminator c \<and> www = str ''www'' @ [c])) \<and>
        seg \<in> {str ''song'', str ''shows'', str ''album'', str ''artist'', str ''featured''} \<and>
        rest \<noteq> [] \<and> (\<forall>c\<in>set rest. \<not> is_line_terminator c))) \<and>
   isJioSaavnLink (str ''https://www.jiosaavn.com/song/abc'') \<and>
   isJioSaavnLink (str ''http://jiosaavn.com/album/xyz'') \<and>
   \<not> isJioSaavnLink (str ''https://jiosaavn.com/artist/'') \<and>
   \<not> isJioSaavnLink (str ''https://spotify.com/song/abc'')"
proof -
  have ex: "isJioSaavnLink (str ''https://www.jiosaavn.com/song/abc'')"
    "isJioSaavnLink (str ''http://jiosaavn.com/album/xyz'')"
    "\<not> isJioSaavnLink (str ''https://jiosaavn.com/artist/'')"
    "\<not> isJioSaavnLink (str ''https://spotify.com/song/abc'')"
    by code_simp+
  show ?thesis
    unfolding isJioSaavnLink_def test_anchored_lang lang_link_pattern
    using ex [unfolded isJioSaavnLink_def test_anchored_lang lang_link_pattern]
    by blast
qed

text \<open>
  The characterization at a string built from its parts: the protocol "http://", no
  "www" part, the segment "album" and the remainder "xyz".
\<close>

theorem isJioSaavnLink_exact_witness:
  "isJioSaavnLink (str ''http://'' @ [] @ str ''jiosaavn.com/'' @ str ''album'' @ str ''/'' @ str ''xyz'')"
proof -
  have "\<forall>c\<in>set (str ''xyz''). \<not> is_line_terminator c"
    by (simp add: str_def is_line_terminator_def)
  moreover have "str ''xyz'' \<noteq> []" by (simp add: str_def)
  ultimately have "\<exists>proto www seg rest.
        str ''http://'' @ [] @ str ''jiosaavn.com/'' @ str ''album'' @ str ''/'' @ str ''xyz'' =
          proto @ www @ str ''jiosaavn.com/'' @ seg @ str ''/'' @ rest \<and>
        proto \<in> {[], str ''http://'', str ''https://''} \<and>
        (www = [] \<or> (\<exists>c. \<not> is_line_terminator c \<and> www = str ''www'' @ [c])) \<and>
        seg \<in> {str ''song'', str ''shows'', str ''album'', str ''artist'', str ''featured''} \<and>
        rest \<noteq> [] \<and> (\<forall>c\<in>set rest. \<not> is_line_terminator c)"
    by (intro exI [of _ "str ''http://''"] exI [of _ "[]"] exI [of _ "str ''album''"]
        exI [of _ "str ''xyz''"]) simp
  then show ?thesis
    using isJioSaavnLink_exact
      [of "str ''http://'' @ [] @ str ''jiosaavn.com/'' @ str ''album'' @ str ''/'' @ str ''xyz''"]
    by blast
qed

text \<open>
  Claim C10. The dot after "www" is unescaped and matches any code unit, so a URL whose
  host is not jiosaavn.com is accepted: "https://wwwxjiosaavn.com/song/abc".
\<close>

theorem isJioSaavnLink_unescaped_dot:
  "isJioSaavnLink (str ''https://wwwxjiosaavn.com/song/abc'')"
  by code_simp

subsection \<open>downloadSong\<close>

text \<open>The \<open>try\<close> block only adds events, and none of them is a message to the user.\<close>

lemma download_try_events:
  "\<exists>evs. snd (download_try br song dl tr) = tr @ evs \<and> (\<forall>m. UserMessage m \<notin> set evs)"
  by (auto simp: download_try_def and_then_def call_def emit_def decodeHtml_def Let_def
      split: sum.splits prod.splits)

lemma downloadSong_well_formed:
  assumes "downloadUrl song \<noteq> []"
  shows "downloadSong br song q tr =
     try_catch
       (download_try br song (rewritten_link song q))
       (\<lambda>error. emit (ConsoleError error_line error)) tr"
  using assms
  by (simp add: downloadSong_def and_then_def call_def link_at_def at_index_def Let_def)

text \<open>Without a first download link the statement before the \<open>try\<close> raises.\<close>

lemma downloadSong_no_link:
  assumes "downloadUrl song = []"
  shows "downloadSong br song q tr = (Inl TypeError, tr)"
  using assms
  by (simp add: downloadSong_def and_then_def call_def link_at_def at_index_def)

text \<open>
  What a call does, by the first browser step that raises: the events of the steps
  before it, then the line of \<open>console.error\<close>.
\<close>

lemma downloadSong_fetch_raises:
  assumes "downloadUrl song \<noteq> []"
    and "fetch br (rewritten_link song q) = Inl e"
  shows "downloadSong br song q tr =
     (Inr (), tr @ [ConsoleError error_line e])"
  using assms(2-)
  by (simp add: downloadSong_well_formed [OF assms(1)] try_catch_def download_try_def and_then_def
      call_def emit_def decodeHtml_def)

lemma downloadSong_blob_raises:
  assumes "downloadUrl song \<noteq> []"
    and "fetch br (rewritten_link song q) = Inr r"
    and "blob br r = Inl e"
  shows "downloadSong br song q tr =
     (Inr (), tr @ [Fetched (rewritten_link song q), ConsoleError error_line e])"
  using assms(2-)
  by (simp add: downloadSong_well_formed [OF assms(1)] try_catch_def download_try_def and_then_def
      call_def emit_def decodeHtml_def)

lemma downloadSong_createObjectURL_raises:
  assumes "downloadUrl song \<noteq> []"
    and "fetch br (rewritten_link song q) = Inr r"
    and "blob br r = Inr b"
    and "createObjectURL br b = Inl e"
  shows "downloadSong br song q tr =
     (Inr (), tr @ [Fetched (rewritten_link song q), ConsoleError error_line e])"
  using assms(2-)
  by (simp add: downloadSong_well_formed [OF assms(1)] try_catch_def download_try_def and_then_def
      call_def emit_def decodeHtml_def)

lemma downloadSong_createElement_raises:
  assumes "downloadUrl song \<noteq> []"
    and "fetch br (rewritten_link song q) = Inr r"
    and "blob br r = Inr b"
    and "createObjectURL br b = Inr u"
    and "createElement br (str ''a'') = Inl e"
  shows "downloadSong br song q tr =
     (Inr (), tr @ [Fetched (rewritten_link song q), ConsoleError error_line e])"
  using assms(2-)
  by (simp add: downloadSong_well_formed [OF assms(1)] try_catch_def download_try_def and_then_def
      call_def emit_def decodeHtml_def)

lemma downloadSong_textContent_raises:
  assumes "downloadUrl song \<noteq> []"
    and "fetch br (rewritten_link song q) = Inr r"
    and "blob br r = Inr b"
    and "createObjectURL br b = Inr u"
    and "createElement br (str ''a'') = Inr n"
    and "textContent br (item.name song) = Inl e"
  shows "downloadSong br song q tr =
     (Inr (), tr @ [Fetched (rewritten_link song q), ConsoleError error_line e])"
  using assms(2-)
  by (simp add: downloadSong_well_formed [OF assms(1)] try_catch_def download_try_def and_then_def
      call_def emit_def decodeHtml_def)

lemma downloadSong_assign_raises:
  assumes "downloadUrl song \<noteq> []"
    and "fetch br (rewritten_link song q) = Inr r"
    and "blob br r = Inr b"
    and "createObjectURL br b = Inr u"
    and "createElement br (str ''a'') = Inr n"
    and "textContent br (item.name song) = Inr t"
    and "assign br n u (str ''display:none'') (file_name song t) = Inl e"
  shows "downloadSong br song q tr =
     (Inr (), tr @ [Fetched (rewritten_link song q), ConsoleError error_line e])"
  using assms(2-)
  by (simp add: downloadSong_well_formed [OF assms(1)] try_catch_def download_try_def and_then_def
      call_def emit_def decodeHtml_def)

lemma downloadSong_appendChild_raises:
  assumes "downloadUrl song \<noteq> []"
    and "fetch br (rewritten_link song q) = Inr r"
    and "blob br r = Inr b"
    and "createObjectURL br b = Inr u"
    and "createElement br (str ''a'') = Inr n"
    and "textContent br (item.name song) = Inr t"
    and "assign br n u (str ''display:none'') (file_name song t) = Inr a"
    and "appendChild br a = Inl e"
  shows "downloadSong br song q tr =
     (Inr (), tr @ [Fetched (rewritten_link song q), ConsoleError error_line e])"
  using assms(2-)
  by (simp add: downloadSong_well_formed [OF assms(1)] try_catch_def download_try_def and_then_def
      call_def emit_def decodeHtml_def)

lemma downloadSong_click_raises:
  assumes "downloadUrl song \<noteq> []"
    and "fetch br (rewritten_link song q) = Inr r"
    and "blob br r = Inr b"
    and "createObjectURL br b = Inr u"
    and "createElement br (str ''a'') = Inr n"
    and "textContent br (item.name song) = Inr t"
    and "assign br n u (str ''display:none'') (file_name song t) = Inr a"
    and "appendChild br a = Inr ()"
    and "click br a = Inl e"
  shows "downloadSong br song q tr =
     (Inr (), tr @ [Fetched (rewritten_link song q), Appended, ConsoleError error_line e])"
  using assms(2-)
  by (simp add: downloadSong_well_formed [OF assms(1)] try_catch_def download_try_def and_then_def
      call_def emit_def decodeHtml_def)

lemma downloadSong_revokeObjectURL_raises:
  assumes "downloadUrl song \<noteq> []"
    and "fetch br (rewritten_link song q) = Inr r"
    and "blob br r = Inr b"
    and "createObjectURL br b = Inr u"
    and "createElement br (str ''a'') = Inr n"
    and "textContent br (item.name song) = Inr t"
    and "assign br n u (str ''display:none'') (file_name song t) = Inr a"
    and "appendChild br a = Inr ()"
    and "click br a = Inr ()"
    and "revokeObjectURL br u = Inl e"
  shows "downloadSong br song q tr =
     (Inr (), tr @ [Fetched (rewritten_link song q), Appended, Saved (file_name song t), ConsoleError error_line e])"
  using assms(2-)
  by (simp add: downloadSong_well_formed [OF assms(1)] try_catch_def download_try_def and_then_def
      call_def emit_def decodeHtml_def)

lemma downloadSong_remove_raises:
  assumes "downloadUrl song \<noteq> []"
    and "fetch br (rewritten_link song q) = Inr r"
    and "blob br r = Inr b"
    and "createObjectURL br b = Inr u"
    and "createElement br (str ''a'') = Inr n"
    and "textContent br (item.name song) = Inr t"
    and "assign br n u (str ''display:none'') (file_name song t) = Inr a"
    and "appendChild br a = Inr ()"
    and "click br a = Inr ()"
    and "revokeObjectURL br u = Inr ()"
    and "remove br a = Inl e"
  shows "downloadSong br song q tr =
     (Inr (), tr @ [Fetched (rewritten_link song q), Appended, Saved (file_name song t), Revoked u, ConsoleError error_line e])"
  using assms(2-)
  by (simp add: downloadSong_well_formed [OF assms(1)] try_catch_def download_try_def and_then_def
      call_def emit_def decodeHtml_def)

lemma downloadSong_succeeds:
  assumes "downloadUrl song \<noteq> []"
    and "fetch br (rewritten_link song q) = Inr r"
    and "blob br r = Inr b"
    and "createObjectURL br b = Inr u"
    and "createElement br (str ''a'') = Inr n"
    and "textContent br (item.name song) = Inr t"
    and "assign br n u (str ''display:none'') (file_name song t) = Inr a"
    and "appendChild br a = Inr ()"
    and "click br a = Inr ()"
    and "revokeObjectURL br u = Inr ()"
    and "remove br a = Inr ()"
  shows "downloadSong br song q tr =
     (Inr (), tr @ [Fetched (rewritten_link song q), Appended, Saved (file_name song t), Revoked u, Removed])"
  using assms(2-)
  by (simp add: downloadSong_well_formed [OF assms(1)] try_catch_def download_try_def and_then_def
      call_def emit_def decodeHtml_def)

text \<open>
  Claim C9. For a song with a first download link and every quality, whatever the
  browser does: the promise of \<open>downloadSong\<close> is fulfilled and no message to the user
  is added; and when a step of the \<open>try\<close> block raises (the request, the blob, the
  object URL, the anchor with its file name, its insertion, the click that saves, the
  release of the URL, the removal of the anchor), the steps after it are left out and
  the error is written with \<open>console.error\<close>.
\<close>

theorem downloadSong_absorbs:
  "downloadUrl song \<noteq> [] \<longrightarrow>
     fst (downloadSong br song q tr) = Inr () \<and>
     (\<forall>m. UserMessage m \<in> set (snd (downloadSong br song q tr)) \<longrightarrow> UserMessage m \<in> set tr) \<and>
     (\<forall>e tr'.
        download_try br song (rewritten_link song q) tr = (Inl e, tr') \<longrightarrow>
        downloadSong br song q tr = (Inr (), tr' @ [ConsoleError error_line e])) \<and>
     (\<forall>e.
        fetch br (rewritten_link song q) = Inl e \<longrightarrow>
        downloadSong br song q tr =
          (Inr (), tr @ [ConsoleError error_line e])) \<and>
     (\<forall>r e.
        fetch br (rewritten_link song q) = Inr r \<and>
        blob br r = Inl e \<longrightarrow>
        downloadSong br song q tr =
          (Inr (), tr @ [Fetched (rewritten_link song q), ConsoleError error_line e])) \<and>
     (\<forall>r b e.
        fetch br (rewritten_link song q) = Inr r \<and>
        blob br r = Inr b \<and>
        createObjectURL br b = Inl e \<longrightarrow>
        downloadSong br song q tr =
          (Inr (), tr @ [Fetched (rewritten_link song q), ConsoleError error_line e])) \<and>
     (\<forall>r b u e.
        fetch br (rewritten_link song q) = Inr r \<and>
        blob br r = Inr b \<and>
        createObjectURL br b = Inr u \<and>
        createElement br (str ''a'') = Inl e \<longrightarrow>
        downloadSong br song q tr =
          (Inr (), tr @ [Fetched (rewritten_link song q), ConsoleError error_line e])) \<and>
     (\<forall>r b u n e.
        fetch br (rewritten_link song q) = Inr r \<and>
        blob br r = Inr b \<and>
        createObjectURL br b = Inr u \<and>
        createElement br (str ''a'') = Inr n \<and>
        textContent br (item.name song) = Inl e \<longrightarrow>
        downloadSong br song q tr =
          (Inr (), tr @ [Fetched (rewritten_link song q), ConsoleError error_line e])) \<and>
     (\<forall>r b u n t e.
        fetch br (rewritten_link song q) = Inr r \<and>
        blob br r = Inr b \<and>
        createObjectURL br b = Inr u \<and>
        createElement br (str ''a'') = Inr n \<and>
        textContent br (item.name song) = Inr t \<and>
        assign br n u (str ''display:none'') (file_name song t) = Inl e \<longrightarrow>
        downloadSong br song q tr =
          (Inr (), tr @ [Fetched (rewritten_link song q), ConsoleError error_line e])) \<and>
     (\<forall>r b u n t a e.
        fetch br (rewritten_link song q) = Inr r \<and>
        blob br r = Inr b \<and>
        createObjectURL br b = Inr u \<and>
        createElement br (str ''a'') = Inr n \<and>
        textContent br (item.name song) = Inr t \<and>
        assign br n u (str ''display:none'') (file_name song t) = Inr a \<and>
        appendChild br a = Inl e \<longrightarrow>
        downloadSong br song q tr =
          (Inr (), tr @ [Fetched (rewritten_link song q), ConsoleError error_line e])) \<and>
     (\<forall>r b u n t a e.
        fetch br (rewritten_link song q) = Inr r \<and>
        blob br r = Inr b \<and>
        createObjectURL br b = Inr u \<and>
        createElement br (str ''a'') = Inr n \<and>
        textContent br (item.name song) = Inr t \<and>
        assign br n u (str ''display:none'') (file_name song t) = Inr a \<and>
        appendChild br a = Inr () \<and>
        click br a = Inl e \<longrightarrow>
        downloadSong br song q tr =
          (Inr (), tr @ [Fetched (rewritten_link song q), Appended, ConsoleError error_line e])) \<and>
     (\<forall>r b u n t a e.
        fetch br (rewritten_link song q) = Inr r \<and>
        blob br r = Inr b \<and>
        createObjectURL br b = Inr u \<and>
        createElement br (str ''a'') = Inr n \<and>
        textContent br (item.name song) = Inr t \<and>
        assign br n u (str ''display:none'') (file_name song t) = Inr a \<and>
        appendChild br a = Inr () \<and>
        click br a = Inr () \<and>
        revokeObjectURL br u = Inl e \<longrightarrow>
        downloadSong br song q tr =
          (Inr (), tr @ [Fetched (rewritten_link song q), Appended, Saved (file_name song t), ConsoleError error_line e])) \<and>
     (\<forall>r b u n t a e.
        fetch br (rewritten_link song q) = Inr r \<and>
        blob br r = Inr b \<and>
        createObjectURL br b = Inr u \<and>
        createElement br (str ''a'') = Inr n \<and>
        textContent br (item.name song) = Inr t \<and>
        assign br n u (str ''display:none'') (file_name song t) = Inr a \<and>
        appendChild br a = Inr () \<and>
        click br a = Inr () \<and>
        revokeObjectURL br u = Inr () \<and>
        remove br a = Inl e \<longrightarrow>
        downloadSong br song q tr =
          (Inr (), tr @ [Fetched (rewritten_link song q), Appended, Saved (file_name song t), Revoked u, ConsoleError error_line e])) \<and>
     (\<forall>r b u n t a.
        fetch br (rewritten_link song q) = Inr r \<and>
        blob br r = Inr b \<and>
        createObjectURL br b = Inr u \<and>
        createElement br (str ''a'') = Inr n \<and>
        textContent br (item.name song) = Inr t \<and>
        assign br n u (str ''display:none'') (file_name song t) = Inr a \<and>
        appendChild br a = Inr () \<and>
        click br a = Inr () \<and>
        revokeObjectURL br u = Inr () \<and>
        remove br a = Inr () \<longrightarrow>
        downloadSong br song q tr =
          (Inr (), tr @ [Fetched (rewritten_link song q), Appended, Saved (file_name song t), Revoked u, Removed]))"
proof
  assume wf: "downloadUrl song \<noteq> []"
  let ?dl = "(rewritten_link song q)"
  let ?msg = "error_line"
  note ds = downloadSong_well_formed [OF wf, of br q tr]
  obtain evs where evs: "snd (download_try br song ?dl tr) = tr @ evs"
      "\<forall>m. UserMessage m \<notin> set evs"
    using download_try_events by blast
  have 1: "fst (downloadSong br song q tr) = Inr ()"
    unfolding ds by (simp add: try_catch_def emit_def split: sum.splits prod.splits)
  have 2: "downloadSong br song q tr = (Inr (), tr' @ [ConsoleError ?msg e])"
    if "download_try br song ?dl tr = (Inl e, tr')" for e tr'
    unfolding ds using that by (simp add: try_catch_def emit_def)
  have 4: "UserMessage m \<in> set tr" if "UserMessage m \<in> set (snd (downloadSong br song q tr))" for m
  proof (cases "download_try br song ?dl tr")
    case (Pair r tr')
    have tr': "tr' = tr @ evs" using evs(1) Pair by simp
    show ?thesis
    proof (cases r)
      case (Inl e)
      then have "snd (downloadSong br song q tr) = tr' @ [ConsoleError ?msg e]"
        using 2 [of e tr'] Pair by simp
      then show ?thesis using that evs(2) tr' by auto
    next
      case (Inr u)
      then have "snd (downloadSong br song q tr) = tr'"
        unfolding ds using Pair by (simp add: try_catch_def)
      then show ?thesis using that evs(2) tr' by auto
    qed
  qed
  show "fst (downloadSong br song q tr) = Inr () \<and>
     (\<forall>m. UserMessage m \<in> set (snd (downloadSong br song q tr)) \<longrightarrow> UserMessage m \<in> set tr) \<and>
     (\<forall>e tr'.
        download_try br song ?dl tr = (Inl e, tr') \<longrightarrow>
        downloadSong br song q tr = (Inr (), tr' @ [ConsoleError ?msg e])) \<and>
     (\<forall>e.
        fetch br ?dl = Inl e \<longrightarrow>
        downloadSong br song q tr =
          (Inr (), tr @ [ConsoleError ?msg e])) \<and>
     (\<forall>r e.
        fetch br ?dl = Inr r \<and>
        blob br r = Inl e \<longrightarrow>
        downloadSong br song q tr =
          (Inr (), tr @ [Fetched ?dl, ConsoleError ?msg e])) \<and>
     (\<forall>r b e.
        fetch br ?dl = Inr r \<and>
        blob br r = Inr b \<and>
        createObjectURL br b = Inl e \<longrightarrow>
        downloadSong br song q tr =
          (Inr (), tr @ [Fetched ?dl, ConsoleError ?msg e])) \<and>
     (\<forall>r b u e.
        fetch br ?dl = Inr r \<and>
        blob br r = Inr b \<and>
        createObjectURL br b = Inr u \<and>
        createElement br (str ''a'') = Inl e \<longrightarrow>
        downloadSong br song q tr =
          (Inr (), tr @ [Fetched ?dl, ConsoleError ?msg e])) \<and>
     (\<forall>r b u n e.
        fetch br ?dl = Inr r \<and>
        blob br r = Inr b \<and>
        createObjectURL br b = Inr u \<and>
        createElement br (str ''a'') = Inr n \<and>
        textContent br (item.name song) = Inl e \<longrightarrow>
        downloadSong br song q tr =
          (Inr (), tr @ [Fetched ?dl, ConsoleError ?msg e])) \<and>
     (\<forall>r b u n t e.
        fetch br ?dl = Inr r \<and>
        blob br r = Inr b \<and>
        createObjectURL br b = Inr u \<and>
        createElement br (str ''a'') = Inr n \<and>
        textContent br (item.name song) = Inr t \<and>
        assign br n u (str ''display:none'') (file_name song t) = Inl e \<longrightarrow>
        downloadSong br song q tr =
          (Inr (), tr @ [Fetched ?dl, ConsoleError ?msg e])) \<and>
     (\<forall>r b u n t a e.
        fetch br ?dl = Inr r \<and>
        blob br r = Inr b \<and>
        createObjectURL br b = Inr u \<and>
        createElement br (str ''a'') = Inr n \<and>
        textContent br (item.name song) = Inr t \<and>
        assign br n u (str ''display:none'') (file_name song t) = Inr a \<and>
        appendChild br a = Inl e \<longrightarrow>
        downloadSong br song q tr =
          (Inr (), tr @ [Fetched ?dl, ConsoleError ?msg e])) \<and>
     (\<forall>r b u n t a e.
        fetch br ?dl = Inr r \<and>
        blob br r = Inr b \<and>
        createObjectURL br b = Inr u \<and>
        createElement br (str ''a'') = Inr n \<and>
        textContent br (item.name song) = Inr t \<and>
        assign br n u (str ''display:none'') (file_name song t) = Inr a \<and>
        appendChild br a = Inr () \<and>
        click br a = Inl e \<longrightarrow>
        downloadSong br song q tr =
          (Inr (), tr @ [Fetched ?dl, Appended, ConsoleError ?msg e])) \<and>
     (\<forall>r b u n t a e.
        fetch br ?dl = Inr r \<and>
        blob br r = Inr b \<and>
        createObjectURL br b = Inr u \<and>
        createElement br (str ''a'') = Inr n \<and>
        textContent br (item.name song) = Inr t \<and>
        assign br n u (str ''display:none'') (file_name song t) = Inr a \<and>
        appendChild br a = Inr () \<and>
        click br a = Inr () \<and>
        revokeObjectURL br u = Inl e \<longrightarrow>
        downloadSong br song q tr =
          (Inr (), tr @ [Fetched ?dl, Appended, Saved (file_name song t), ConsoleError ?msg e])) \<and>
     (\<forall>r b u n t a e.
        fetch br ?dl = Inr r \<and>
        blob br r = Inr b \<and>
        createObjectURL br b = Inr u \<and>
        createElement br (str ''a'') = Inr n \<and>
        textContent br (item.name song) = Inr t \<and>
        assign br n u (str ''display:none'') (file_name song t) = Inr a \<and>
        appendChild br a = Inr () \<and>
        click br a = Inr () \<and>
        revokeObjectURL br u = Inr () \<and>
        remove br a = Inl e \<longrightarrow>
        downloadSong br song q tr =
          (Inr (), tr @ [Fetched ?dl, Appended, Saved (file_name song t), Revoked u, ConsoleError ?msg e])) \<and>
     (\<forall>r b u n t a.
        fetch br ?dl = Inr r \<and>
        blob br r = Inr b \<and>
        createObjectURL br b = Inr u \<and>
        createElement br (str ''a'') = Inr n \<and>
        textContent br (item.name song) = Inr t \<and>
        assign br n u (str ''display:none'') (file_name song t) = Inr a \<and>
        appendChild br a = Inr () \<and>
        click br a = Inr () \<and>
        revokeObjectURL br u = Inr () \<and>
        remove br a = Inr () \<longrightarrow>
        downloadSong br song q tr =
          (Inr (), tr @ [Fetched ?dl, Appended, Saved (file_name song t), Revoked u, Removed]))"
    using 1 2 4
    by (intro conjI allI impI; (elim conjE)?)
       (simp_all add: downloadSong_fetch_raises [OF wf] downloadSong_blob_raises [OF wf] downloadSong_createObjectURL_raises [OF wf] downloadSong_createElement_raises [OF wf] downloadSong_textContent_raises [OF wf] downloadSong_assign_raises [OF wf] downloadSong_appendChild_raises [OF wf] downloadSong_click_raises [OF wf] downloadSong_revokeObjectURL_raises [OF wf] downloadSong_remove_raises [OF wf]
         downloadSong_succeeds [OF wf])
qed

text \<open>
  The statement at a song with the link "a_12.mp4" and the quality \<open>high\<close>, in a browser
  whose request succeeds and whose \<open>blob\<close> raises: the request is made for "a_96.mp4",
  nothing is saved, and the error is logged.
\<close>

theorem downloadSong_absorbs_witness:
  "downloadUrl \<lparr>name = str ''n'', year = str ''2020'', artists = ArtistAbsent,
       primaryArtists = ArtistString [], primaryArtistsId = [], featuredArtists = ArtistString [],
       downloadUrl = [\<lparr>link = str ''a_12.mp4''\<rparr>]\<rparr> \<noteq> [] \<and>
   downloadSong
     \<lparr>fetch = (\<lambda>l. Inr ()), blob = (\<lambda>r :: unit. Inl NetworkError),
      createObjectURL = (\<lambda>b :: unit. Inr (str ''blob:1'')), textContent = (\<lambda>s. Inr (Some s)),
      createElement = (\<lambda>t. Inr ()), assign = (\<lambda>(n :: unit) h s d. Inr n),
      appendChild = (\<lambda>n. Inr ()), click = (\<lambda>n. Inr ()),
      revokeObjectURL = (\<lambda>u. Inr ()), remove = (\<lambda>n. Inr ())\<rparr>
     \<lparr>name = str ''n'', year = str ''2020'', artists = ArtistAbsent,
       primaryArtists = ArtistString [], primaryArtistsId = [], featuredArtists = ArtistString [],
       downloadUrl = [\<lparr>link = str ''a_12.mp4''\<rparr>]\<rparr>
     high [] =
   (Inr (), [Fetched (str ''a_96.mp4''),
             ConsoleError (str ''Error occurred during download:'') NetworkError])"
proof -
  have l: "replace (str ''_12.mp4'') (str ''_96'' @ str ''.mp4'') (str ''a_12.mp4'') =
      str ''a_96.mp4''"
    by (simp add: str_def)
  show ?thesis
    using downloadSong_absorbs [of
       "\<lparr>name = str ''n'', year = str ''2020'', artists = ArtistAbsent,
         primaryArtists = ArtistString [], primaryArtistsId = [], featuredArtists = ArtistString [],
         downloadUrl = [\<lparr>link = str ''a_12.mp4''\<rparr>]\<rparr>"
       "\<lparr>fetch = (\<lambda>l. Inr ()), blob = (\<lambda>r :: unit. Inl NetworkError),
        createObjectURL = (\<lambda>b :: unit. Inr (str ''blob:1'')), textContent = (\<lambda>s. Inr (Some s)),
        createElement = (\<lambda>t. Inr ()), assign = (\<lambda>(n :: unit) h s d. Inr n),
        appendChild = (\<lambda>n. Inr ()), click = (\<lambda>n. Inr ()),
        revokeObjectURL = (\<lambda>u. Inr ()), remove = (\<lambda>n. Inr ())\<rparr>"
       high "[]"]
    by (simp add: l)
qed

text \<open>
  A run in which the click that saves the file raises, after the anchor was inserted.
\<close>

lemma downloadSong_click_example:
  "downloadSong
     \<lparr>fetch = (\<lambda>l. Inr ()), blob = (\<lambda>r :: unit. Inr ()),
      createObjectURL = (\<lambda>b :: unit. Inr (str ''blob:1'')), textContent = (\<lambda>s. Inr (Some s)),
      createElement = (\<lambda>t. Inr ()), assign = (\<lambda>(n :: unit) h s d. Inr n),
      appendChild = (\<lambda>n. Inr ()), click = (\<lambda>n. Inl DOMError),
      revokeObjectURL = (\<lambda>u. Inr ()), remove = (\<lambda>n. Inr ())\<rparr>
     \<lparr>name = str ''n'', year = str ''2020'', artists = ArtistAbsent,
       primaryArtists = ArtistString [], primaryArtistsId = [], featuredArtists = ArtistString [],
       downloadUrl = [\<lparr>link = str ''a_12.mp4''\<rparr>]\<rparr>
     high [] =
   (Inr (), [Fetched (str ''a_96.mp4''), Appended,
             ConsoleError (str ''Error occurred during download:'') DOMError])"
  by (simp add: downloadSong_def download_try_def and_then_def call_def emit_def try_catch_def
      decodeHtml_def string_or_null_def link_at_def at_index_def str_def)

text \<open>A run in which every step succeeds: the link is rewritten and the file is saved.\<close>

lemma downloadSong_success_example:
  "downloadSong
     \<lparr>fetch = (\<lambda>l. Inr ()), blob = (\<lambda>r :: unit. Inr ()),
      createObjectURL = (\<lambda>b :: unit. Inr (str ''blob:1'')), textContent = (\<lambda>s. Inr (Some s)),
      createElement = (\<lambda>t. Inr ()), assign = (\<lambda>(n :: unit) h s d. Inr n),
      appendChild = (\<lambda>n. Inr ()), click = (\<lambda>n. Inr ()),
      revokeObjectURL = (\<lambda>u. Inr ()), remove = (\<lambda>n. Inr ())\<rparr>
     \<lparr>name = str ''n'', year = str ''2020'', artists = ArtistAbsent,
       primaryArtists = ArtistString [], primaryArtistsId = [], featuredArtists = ArtistString [],
       downloadUrl = [\<lparr>link = str ''a_12.mp4''\<rparr>]\<rparr>
     high [] =
   (Inr (), [Fetched (str ''a_96.mp4''), Appended, Saved (str ''n 2020.mp3''),
             Revoked (str ''blob:1''), Removed])"
  by (simp add: downloadSong_def download_try_def and_then_def call_def emit_def try_catch_def
      decodeHtml_def string_or_null_def link_at_def at_index_def str_def)

subsection \<open>strToBase64 and base64ToStr\<close>


lemma unat_base64_char:
  assumes "i < 64"
  shows "unat (base64_char i) =
     (if i < 26 then 0x41 + i else if i < 52 then 0x61 + (i - 26)
      else if i < 62 then 0x30 + (i - 52) else if i = 62 then 0x2B else 0x2F)"
proof -
  have "base64_char i =
     of_nat (if i < 26 then 0x41 + i else if i < 52 then 0x61 + (i - 26)
      else if i < 62 then 0x30 + (i - 52) else if i = 62 then 0x2B else 0x2F)"
    by (simp add: base64_char_def)
  then show ?thesis
    by (rule unat_code) (use assms in auto)
qed

lemma base64_value_char: "i < 64 \<Longrightarrow> base64_value (base64_char i) = Some i"
  by (auto simp add: base64_value_def Let_def unat_base64_char)

lemma base64_char_not_pad: "i < 64 \<Longrightarrow> base64_char i \<noteq> 0x3D"
proof
  assume "i < 64" and "base64_char i = 0x3D"
  then have "base64_value (base64_char i) = base64_value 0x3D" by simp
  then show False using \<open>i < 64\<close> by (simp add: base64_value_char) (simp add: base64_value_def)
qed

lemma base64_char_not_space: "i < 64 \<Longrightarrow> \<not> is_ascii_whitespace (base64_char i)"
proof
  assume i: "i < 64" and "is_ascii_whitespace (base64_char i)"
  then have "base64_value (base64_char i) = None"
    by (auto simp: is_ascii_whitespace_def base64_value_def)
  then show False using i by (simp add: base64_value_char)
qed

lemma sextet_bounds:
  fixes a b c :: nat
  shows "a < 256 \<Longrightarrow> a div 4 < 64"
    and "b < 256 \<Longrightarrow> a mod 4 * 16 + b div 16 < 64"
    and "c < 256 \<Longrightarrow> b mod 16 * 4 + c div 64 < 64"
    and "c mod 64 < 64"
    and "a mod 4 * 16 < 64"
    and "b mod 16 * 4 < 64"
proof -
  have m: "a mod 4 < 4" "b mod 16 < 16" by simp_all
  show "a < 256 \<Longrightarrow> a div 4 < 64" by simp
  show "a mod 4 * 16 + b div 16 < 64" if "b < 256"
  proof -
    have "b div 16 < 16" using that by simp
    then show ?thesis using m(1) by simp
  qed
  show "b mod 16 * 4 + c div 64 < 64" if "c < 256"
  proof -
    have "c div 64 < 4" using that by simp
    then show ?thesis using m(2) by simp
  qed
  show "c mod 64 < 64" by simp
  show "a mod 4 * 16 < 64" using m(1) by simp
  show "b mod 16 * 4 < 64" using m(2) by simp
qed

lemma octet_first:
  fixes a b :: nat
  assumes "b < 256"
  shows "a div 4 * 4 + (a mod 4 * 16 + b div 16) div 16 = a"
proof -
  have "b div 16 < 16" using assms by simp
  then have "(a mod 4 * 16 + b div 16) div 16 = a mod 4" by simp
  then show ?thesis by simp
qed

lemma octet_second:
  fixes a b c :: nat
  assumes "b < 256" "c < 256"
  shows "(a mod 4 * 16 + b div 16) mod 16 * 16 + (b mod 16 * 4 + c div 64) div 4 = b"
proof -
  have b16: "b div 16 < 16" and c64: "c div 64 < 4" using assms by simp_all
  have "(b mod 16 * 4 + c div 64) div 4 = b mod 16" using c64 by simp
  then show ?thesis using b16 by simp
qed

lemma octet_third:
  fixes b c :: nat
  assumes "c < 256"
  shows "(b mod 16 * 4 + c div 64) mod 4 * 64 + c mod 64 = c"
proof -
  have "c div 64 < 4" using assms by simp
  then show ?thesis by simp
qed

lemma pad_not_space: "\<not> is_ascii_whitespace 0x3D"
  by (simp add: is_ascii_whitespace_def)

lemma base64_encode_no_space:
  "\<forall>b\<in>set bs. b < 256 \<Longrightarrow>
     filter (\<lambda>c. \<not> is_ascii_whitespace c) (base64_encode bs) = base64_encode bs"
  by (induction bs rule: base64_encode.induct)
     (simp_all add: base64_char_not_space sextet_bounds pad_not_space)

lemma base64_encode_length: "length (base64_encode bs) mod 4 = 0"
  by (induction bs rule: base64_encode.induct) simp_all

lemma base64_encode_long: "base64_encode bs = [] \<or> 2 \<le> length (base64_encode bs)"
  by (induction bs rule: base64_encode.induct) simp_all

lemma strip_padding_append:
  assumes "2 \<le> length ys"
  shows "strip_padding (xs @ ys) = xs @ strip_padding ys"
proof -
  have ne: "ys \<noteq> []" "butlast ys \<noteq> []" using assms by (cases ys; cases "tl ys"; auto)+
  then show ?thesis
    by (simp add: strip_padding_def butlast_append last_append)
qed

lemma strip_padding_encode:
  "\<forall>b\<in>set bs. b < 256 \<Longrightarrow> strip_padding (base64_encode bs) = base64_body bs"
proof (induction bs rule: base64_encode.induct)
  case 1
  show ?case by (simp add: strip_padding_def)
next
  case (2 a)
  then show ?case by (simp add: strip_padding_def)
next
  case (3 a b)
  then show ?case by (simp add: strip_padding_def base64_char_not_pad sextet_bounds)
next
  case (4 a b c bs)
  let ?q = "[base64_char (a div 4), base64_char (a mod 4 * 16 + b div 16),
      base64_char (b mod 16 * 4 + c div 64), base64_char (c mod 64)]"
  have last: "base64_char (c mod 64) \<noteq> 0x3D" by (simp add: base64_char_not_pad)
  from base64_encode_long [of bs] show ?case
  proof
    assume e: "base64_encode bs = []"
    then have "bs = []" by (cases bs rule: base64_encode.cases) simp_all
    then show ?thesis using last by (simp add: strip_padding_def)
  next
    assume "2 \<le> length (base64_encode bs)"
    then have "strip_padding (?q @ base64_encode bs) = ?q @ strip_padding (base64_encode bs)"
      by (rule strip_padding_append)
    then show ?thesis using 4 by simp
  qed
qed

lemma base64_body_length: "length (base64_body bs) mod 4 \<noteq> Suc 0"
  by (induction bs rule: base64_body.induct) simp_all

lemma base64_body_decode:
  "\<forall>b\<in>set bs. b < 256 \<Longrightarrow>
     \<exists>vs. values_of (base64_body bs) = Some vs \<and> base64_decode vs = bs"
proof (induction bs rule: base64_body.induct)
  case 1
  show ?case by simp
next
  case (2 a)
  then have "a < 256" by simp
  then show ?case
    using octet_first [of 0 a]
    by (simp add: base64_value_char sextet_bounds)
next
  case (3 a b)
  then have "a < 256" "b < 256" by simp_all
  then show ?case
    using octet_first [of b a] octet_second [of b 0 a]
    by (simp add: base64_value_char sextet_bounds)
next
  case (4 a b c bs)
  then have lt: "a < 256" "b < 256" "c < 256" by simp_all
  from 4 obtain vs where vs: "values_of (base64_body bs) = Some vs" "base64_decode vs = bs"
    by auto
  show ?case
    using octet_first [OF lt(2), of a] octet_second [OF lt(2,3), of a] octet_third [OF lt(3), of b] vs lt
    by (simp add: base64_value_char sextet_bounds)
qed

lemma atob_base64_encode:
  assumes "\<forall>b\<in>set bs. b < 256"
  shows "atob (base64_encode bs) = Inr (map of_nat bs)"
proof -
  obtain vs where vs: "values_of (base64_body bs) = Some vs" "base64_decode vs = bs"
    using base64_body_decode [OF assms] by blast
  show ?thesis
    using vs
    by (simp add: atob_def Let_def base64_encode_no_space [OF assms] base64_encode_length
        strip_padding_encode [OF assms] base64_body_length)
qed

lemma atob_btoa:
  assumes "\<forall>c\<in>set e. unat c \<le> 0xFF"
  shows "\<exists>b. btoa e = Inr b \<and> atob b = Inr e"
proof -
  have "\<not> list_ex (\<lambda>c. 0xFF < unat c) e"
    using assms by (auto simp: list_ex_iff)
  then have b: "btoa e = Inr (base64_encode (map unat e))"
    by (simp add: btoa_def)
  have "\<forall>b\<in>set (map unat e). b < 256" using assms by auto
  then have "atob (base64_encode (map unat e)) = Inr (map of_nat (map unat e))"
    by (rule atob_base64_encode)
  also have "map of_nat (map unat e) = e"
    by (induction e) simp_all
  finally show ?thesis using b by simp
qed

lemma prepend_Inr: "prepend p (Inr s) = Inr (p @ s)"
  by (simp add: prepend_def)

lemma unat_hex_digit:
  assumes "d < 16"
  shows "unat (hex_digit d) = (if d < 10 then 0x30 + d else 0x41 + (d - 10))"
proof -
  have "hex_digit d = of_nat (if d < 10 then 0x30 + d else 0x41 + (d - 10))"
    by (simp add: hex_digit_def)
  then show ?thesis
    by (rule unat_code) (use assms in auto)
qed

lemma hex_value_digit: "d < 16 \<Longrightarrow> hex_value (hex_digit d) = Some d"
  by (auto simp add: hex_value_def Let_def unat_hex_digit)

lemma parse_percent:
  assumes "b < 256"
  shows "parseHexOctet [hex_digit (b div 16), hex_digit (b mod 16)] = Some b"
proof -
  have "b div 16 < 16" "b mod 16 < 16" using assms by simp_all
  then show ?thesis by (simp add: hex_value_digit)
qed

lemma hex_digit_ascii: "d < 16 \<Longrightarrow> unat (hex_digit d) \<le> 0xFF"
  by (simp add: unat_hex_digit)

lemma percent_encode_ascii:
  assumes "b < 256"
  shows "\<forall>c\<in>set (percent_encode b). unat c \<le> 0xFF"
proof -
  have "b div 16 < 16" "b mod 16 < 16" using assms by simp_all
  then show ?thesis by (simp add: percent_encode_def hex_digit_ascii)
qed

lemma escapes_ascii:
  "\<forall>b\<in>set bs. b < 256 \<Longrightarrow> \<forall>c\<in>set (concat (map percent_encode bs)). unat c \<le> 0xFF"
  using percent_encode_ascii by auto

lemma percent_cons:
  "percent_encode b @ s = 0x25 # hex_digit (b div 16) # hex_digit (b mod 16) # s"
  by (simp add: percent_encode_def)

lemma continuation_octets_escapes:
  "\<forall>b\<in>set bs. b < 256 \<Longrightarrow>
     continuation_octets (length bs) (concat (map percent_encode bs) @ rest) = Some bs"
  by (induction bs) (simp_all add: percent_cons parse_percent del: parseHexOctet.simps)

lemma escapes_length: "length (concat (map percent_encode bs)) = 3 * length bs"
  by (induction bs) (simp_all add: percent_encode_def)

lemma drop_escapes:
  "drop (3 * length bs) (concat (map percent_encode bs) @ rest) = rest"
  by (simp add: escapes_length)

lemma decode_escape_ascii:
  assumes "b < 0x80"
  shows "decodeURIComponent (percent_encode b @ rest) =
     prepend [of_nat b] (decodeURIComponent rest)"
proof -
  have "b < 256" using assms by simp
  then show ?thesis
    using assms by (simp add: percent_cons parse_percent leading_ones_def del: parseHexOctet.simps)
qed

lemma decode_escape_sequence:
  assumes "b < 256" and "\<forall>x\<in>set bs. x < 256"
    and "leading_ones b = Suc (length bs)" and "bs \<noteq> []" and "length bs \<le> 3"
    and "utf8_decode (b # bs) = Some v"
  shows "decodeURIComponent (percent_encode b @ concat (map percent_encode bs) @ rest) =
     prepend (utf16_encode v) (decodeURIComponent rest)"
proof -
  have n: "leading_ones b \<noteq> 0" "leading_ones b \<noteq> Suc 0" "\<not> 4 < leading_ones b"
    "leading_ones b - Suc 0 = length bs"
    using assms(3,4,5) by (cases bs; simp)+
  show ?thesis
    using assms(6)
    by (simp add: percent_cons parse_percent [OF assms(1)] n
        continuation_octets_escapes [OF assms(2)] escapes_length del: parseHexOctet.simps)
qed

lemma split_digits_64:
  fixes cp :: nat
  shows "cp div 4096 * 4096 + cp div 64 mod 64 * 64 + cp mod 64 = cp"
proof -
  have g: "(a * 64 + b) * 64 = a * 4096 + b * 64" for a b :: nat by simp
  have "cp div 4096 = cp div 64 div 64" by (simp add: div_mult2_eq)
  then have "cp div 4096 * 4096 + cp div 64 mod 64 * 64 =
      (cp div 64 div 64 * 64 + cp div 64 mod 64) * 64"
    by (simp only: g)
  also have "\<dots> = cp div 64 * 64" by simp
  finally show ?thesis by simp
qed

lemma split_digits_64_4:
  fixes cp :: nat
  shows "cp div 262144 * 262144 + cp div 4096 mod 64 * 4096 + cp div 64 mod 64 * 64 + cp mod 64 = cp"
proof -
  have g: "(a * 64 + b) * 4096 = a * 262144 + b * 4096" for a b :: nat by simp
  have "cp div 262144 = cp div 4096 div 64" by (simp add: div_mult2_eq)
  then have "cp div 262144 * 262144 + cp div 4096 mod 64 * 4096 =
      (cp div 4096 div 64 * 64 + cp div 4096 mod 64) * 4096"
    by (simp only: g)
  also have "\<dots> = cp div 4096 * 4096" by simp
  finally show ?thesis using split_digits_64 [of cp] by simp
qed

lemma utf8_roundtrip:
  assumes "0x80 \<le> cp" "cp < 0x110000" "\<not> (0xD800 \<le> cp \<and> cp \<le> 0xDFFF)"
  shows "\<exists>b bs. utf8_encode cp = b # bs \<and> b < 256 \<and> (\<forall>x\<in>set bs. x < 256) \<and>
      leading_ones b = Suc (length bs) \<and> bs \<noteq> [] \<and> length bs \<le> 3 \<and>
      utf8_decode (b # bs) = Some cp"
proof -
  have m: "cp mod 64 < 64" "cp div 64 mod 64 < 64" "cp div 4096 mod 64 < 64" by simp_all
  have w: "cp mod 64 < 128" "cp div 64 mod 64 < 128" "cp div 4096 mod 64 < 128"
    using m by linarith+
  consider "cp < 0x800" | "0x800 \<le> cp" "cp < 0x10000" | "0x10000 \<le> cp" by linarith
  then show ?thesis
  proof cases
    case 1
    have d: "cp div 64 < 32" using 1 by simp
    have e: "utf8_encode cp = [0xC0 + cp div 64, 0x80 + cp mod 64]"
      using assms(1) 1 by (simp add: utf8_encode_def)
    have "leading_ones (0xC0 + cp div 64) = 2" using d by (simp add: leading_ones_def)
    moreover have "utf8_decode [0xC0 + cp div 64, 0x80 + cp mod 64] = Some cp"
      using assms(1) m(1) by (simp add: is_continuation_def)
    ultimately show ?thesis using e d w by simp
  next
    case 2
    have d: "cp div 4096 < 16" using 2 by simp
    have e: "utf8_encode cp = [0xE0 + cp div 4096, 0x80 + cp div 64 mod 64, 0x80 + cp mod 64]"
      using 2 by (simp add: utf8_encode_def)
    have "leading_ones (0xE0 + cp div 4096) = 3" using d by (simp add: leading_ones_def)
    moreover have "utf8_decode [0xE0 + cp div 4096, 0x80 + cp div 64 mod 64, 0x80 + cp mod 64] = Some cp"
      using 2 assms(3) m split_digits_64 [of cp] by (simp add: is_continuation_def)
    ultimately show ?thesis using e d w by simp
  next
    case 3
    have d: "cp div 262144 < 5" using assms(2) by simp
    have e: "utf8_encode cp = [0xF0 + cp div 262144, 0x80 + cp div 4096 mod 64,
        0x80 + cp div 64 mod 64, 0x80 + cp mod 64]"
      using 3 by (simp add: utf8_encode_def)
    have "leading_ones (0xF0 + cp div 262144) = 4" using d by (simp add: leading_ones_def)
    moreover have "utf8_decode [0xF0 + cp div 262144, 0x80 + cp div 4096 mod 64,
        0x80 + cp div 64 mod 64, 0x80 + cp mod 64] = Some cp"
      using 3 assms(2) m split_digits_64_4 [of cp] by (simp add: is_continuation_def)
    ultimately show ?thesis using e d w by simp
  qed
qed

lemma utf16_encode_ascii: "cp < 0x80 \<Longrightarrow> utf16_encode cp = [of_nat cp]"
  by (simp add: utf16_encode_def)

lemma decode_code_point:
  assumes "cp < 0x110000" "\<not> (0xD800 \<le> cp \<and> cp \<le> 0xDFFF)"
  shows "decodeURIComponent (concat (map percent_encode (utf8_encode cp)) @ rest) =
       prepend (utf16_encode cp) (decodeURIComponent rest) \<and>
     (\<forall>c\<in>set (concat (map percent_encode (utf8_encode cp))). unat c \<le> 0xFF)"
proof (cases "cp < 0x80")
  case True
  then have "utf8_encode cp = [cp]" by (simp add: utf8_encode_def)
  moreover have "\<forall>c\<in>set (percent_encode cp). unat c \<le> 0xFF"
    using True by (intro percent_encode_ascii) simp
  ultimately show ?thesis
    using decode_escape_ascii [OF True, of rest] utf16_encode_ascii [OF True] by simp
next
  case False
  then obtain b bs where e: "utf8_encode cp = b # bs" "b < 256" "\<forall>x\<in>set bs. x < 256"
    "leading_ones b = Suc (length bs)" "bs \<noteq> []" "length bs \<le> 3" "utf8_decode (b # bs) = Some cp"
    using utf8_roundtrip [of cp] assms by (auto simp: not_less)
  have "\<forall>x\<in>set (b # bs). x < 256" using e(2,3) by simp
  then have "\<forall>c\<in>set (concat (map percent_encode (b # bs))). unat c \<le> 0xFF"
    by (rule escapes_ascii)
  then show ?thesis
    using decode_escape_sequence [OF e(2-7), of rest] e(1) by simp
qed

lemma uri_unescaped_ascii:
  assumes "uri_unescaped c"
  shows "c \<noteq> 0x25" "unat c \<le> 0xFF" "\<not> is_lead c" "\<not> is_trail c"
proof -
  have "unat c \<le> 0x7E \<and> unat c \<noteq> 0x25"
    using assms
    by (auto simp: uri_unescaped_def is_alnum_def str_def word_le_nat_alt)
  then show "c \<noteq> 0x25" "unat c \<le> 0xFF" "\<not> is_lead c" "\<not> is_trail c"
    by (auto simp: is_lead_def is_trail_def)
qed

lemma utf16_encode_unit: "utf16_encode (unat (c :: code_unit)) = [c]"
proof -
  have "unat c \<le> 0xFFFF" using unat_unit_bound [of c] by simp
  then show ?thesis by (simp add: utf16_encode_def)
qed

lemma pair_code_point_range:
  assumes "is_lead c" "is_trail d"
  shows "0x10000 \<le> pair_code_point c d" "pair_code_point c d < 0x110000"
proof -
  have "unat c - 0xD800 \<le> 0x3FF" "unat d - 0xDC00 \<le> 0x3FF"
    using assms unfolding is_lead_def is_trail_def by linarith+
  then have "(unat c - 0xD800) * 0x400 + (unat d - 0xDC00) \<le> 0x3FF * 0x400 + 0x3FF"
    by (intro add_mono mult_le_mono1) simp_all
  then show "0x10000 \<le> pair_code_point c d" "pair_code_point c d < 0x110000"
    by (simp_all add: pair_code_point_def)
qed

lemma utf16_encode_pair:
  assumes "is_lead c" "is_trail d"
  shows "utf16_encode (pair_code_point c d) = [c, d]"
proof -
  let ?h = "unat c - 0xD800" and ?l = "unat d - 0xDC00"
  have l: "?l < 0x400" using assms(2) unfolding is_trail_def by linarith
  have big: "\<not> pair_code_point c d \<le> 0xFFFF"
    using pair_code_point_range(1) [OF assms] by simp
  have sub: "pair_code_point c d - 0x10000 = ?h * 0x400 + ?l"
    by (simp add: pair_code_point_def)
  have "(?h * 0x400 + ?l) div 0x400 = ?h" using l by simp
  moreover have "(?h * 0x400 + ?l) mod 0x400 = ?l" using l by simp
  moreover have "?h + 0xD800 = unat c" using assms(1) unfolding is_lead_def by linarith
  moreover have "?l + 0xDC00 = unat d" using assms(2) unfolding is_trail_def by linarith
  ultimately show ?thesis
    unfolding utf16_encode_def sub using big by (simp only: if_False of_nat_unat unsigned_eq_0_iff)
      simp
qed

lemma encodes_unescaped:
  assumes "uri_unescaped c" "encodes_to s e"
  shows "encodes_to (c # s) (c # e)"
  using assms uri_unescaped_ascii [OF assms(1)]
  by (simp add: encodes_to_def prepend_Inr)

lemma encodes_unit:
  assumes "\<not> uri_unescaped c" "\<not> is_lead c" "\<not> is_trail c" "encodes_to s e"
  shows "encodes_to (c # s) (concat (map percent_encode (utf8_encode (unat c))) @ e)"
proof -
  have "unat c < 0x110000" using unat_unit_bound [of c] by simp
  moreover have "\<not> (0xD800 \<le> unat c \<and> unat c \<le> 0xDFFF)"
    using assms(2,3) unfolding is_lead_def is_trail_def by linarith
  ultimately have "decodeURIComponent (concat (map percent_encode (utf8_encode (unat c))) @ e) =
       prepend (utf16_encode (unat c)) (decodeURIComponent e) \<and>
     (\<forall>x\<in>set (concat (map percent_encode (utf8_encode (unat c)))). unat x \<le> 0xFF)"
    by (rule decode_code_point)
  then show ?thesis
    using assms by (auto simp add: encodes_to_def prepend_Inr utf16_encode_unit)
qed

lemma encodes_pair:
  assumes "is_lead c" "is_trail d" "encodes_to s e"
  shows "encodes_to (c # d # s) (concat (map percent_encode (utf8_encode (pair_code_point c d))) @ e)"
proof -
  have nu: "\<not> uri_unescaped c" using assms(1) uri_unescaped_ascii(3) by blast
  have nt: "\<not> is_trail c" using assms(1) unfolding is_lead_def is_trail_def by linarith
  have "\<not> (0xD800 \<le> pair_code_point c d \<and> pair_code_point c d \<le> 0xDFFF)"
    using pair_code_point_range(1) [OF assms(1,2)] by linarith
  with pair_code_point_range(2) [OF assms(1,2)]
  have "decodeURIComponent (concat (map percent_encode (utf8_encode (pair_code_point c d))) @ e) =
       prepend (utf16_encode (pair_code_point c d)) (decodeURIComponent e) \<and>
     (\<forall>x\<in>set (concat (map percent_encode (utf8_encode (pair_code_point c d)))). unat x \<le> 0xFF)"
    by (rule decode_code_point)
  then show ?thesis
    using assms nu nt
    by (auto simp add: encodes_to_def prepend_Inr utf16_encode_pair)
qed

lemma uri_roundtrip: "well_formed s \<Longrightarrow> \<exists>e. encodes_to s e"
proof (induction s rule: well_formed.induct)
  case 1
  show ?case by (simp add: encodes_to_def)
next
  case (2 c)
  have nil: "encodes_to [] []" by (simp add: encodes_to_def)
  show ?case
  proof (cases "uri_unescaped c")
    case True
    then show ?thesis using encodes_unescaped [OF _ nil] by blast
  next
    case False
    then show ?thesis using encodes_unit [OF _ _ _ nil] 2 by auto
  qed
next
  case (3 c d ds)
  show ?case
  proof (cases "is_lead c")
    case True
    then obtain e where "encodes_to ds e" using 3 by auto
    moreover have "is_trail d" using 3(3) True by simp
    ultimately show ?thesis using encodes_pair [OF True] by blast
  next
    case False
    then obtain e where e: "encodes_to (d # ds) e" and nt: "\<not> is_trail c" using 3 by auto
    show ?thesis
    proof (cases "uri_unescaped c")
      case True
      then show ?thesis using encodes_unescaped [OF _ e] by blast
    next
      case nu: False
      show ?thesis using encodes_unit [OF nu False nt e] by blast
    qed
  qed
qed

lemma not_well_formed_raises: "\<not> well_formed s \<Longrightarrow> encodeURIComponent s = Inl URIError"
proof (induction s rule: well_formed.induct)
  case 1
  then show ?case by simp
next
  case (2 c)
  then show ?case
    using uri_unescaped_ascii(3,4) [of c] by (auto simp: prepend_def)
next
  case (3 c d ds)
  show ?case
  proof (cases "uri_unescaped c")
    case True
    then have "\<not> is_lead c" "\<not> is_trail c" using uri_unescaped_ascii by blast+
    then show ?thesis using 3 True by (simp add: prepend_def)
  next
    case False
    then show ?thesis using 3 by (auto simp: prepend_def)
  qed
qed

lemma lone_surrogate_raises: "strToBase64 [0xD800] = Inl URIError"
  by (simp add: strToBase64_def uri_unescaped_def is_alnum_def str_def is_trail_def is_lead_def)

text \<open>
  Claim C4, as the specification states it, fails: a string is any sequence of code
  units, and on an unpaired surrogate \<open>encodeURIComponent\<close> raises, so that
  \<open>strToBase64\<close> returns no encoding to decode.
\<close>

theorem base64_roundtrip_counterexample:
  "\<not> (\<exists>b. strToBase64 [0xD800] = Inr b \<and> base64ToStr b = Inr [0xD800])"
  by (simp add: lone_surrogate_raises)

text \<open>
  Claim C4, amended. For every well-formed string \<open>s\<close> (one without unpaired
  surrogate; the empty string, Unicode text and special characters included),
  \<open>strToBase64 s\<close> returns an encoding and \<open>base64ToStr\<close> of it returns \<open>s\<close>; on
  every other string \<open>strToBase64\<close> raises a URIError.
\<close>

theorem base64_roundtrip:
  "(well_formed s \<longrightarrow> (\<exists>b. strToBase64 s = Inr b \<and> base64ToStr b = Inr s)) \<and>
   (\<not> well_formed s \<longrightarrow> strToBase64 s = Inl URIError)"
proof (intro conjI impI)
  assume "well_formed s"
  then obtain e where e: "encodeURIComponent s = Inr e" "decodeURIComponent e = Inr s"
    "\<forall>c\<in>set e. unat c \<le> 0xFF"
    using uri_roundtrip unfolding encodes_to_def by blast
  obtain b where "btoa e = Inr b" "atob b = Inr e"
    using atob_btoa [OF e(3)] by blast
  then show "\<exists>b. strToBase64 s = Inr b \<and> base64ToStr b = Inr s"
    using e(1,2) by (simp add: strToBase64_def base64ToStr_def)
next
  assume "\<not> well_formed s"
  then show "strToBase64 s = Inl URIError"
    by (simp add: strToBase64_def not_well_formed_raises)
qed

text \<open>
  The round trip of a string with a surrogate pair (U+1F600) and a space, and the error on
  a trailing surrogate that stands alone.
\<close>

theorem base64_roundtrip_witness:
  "well_formed [0xD83D, 0xDE00, 0x20] \<and>
   (\<exists>b. strToBase64 [0xD83D, 0xDE00, 0x20] = Inr b \<and> base64ToStr b = Inr [0xD83D, 0xDE00, 0x20]) \<and>
   \<not> well_formed [0xDE00] \<and> strToBase64 [0xDE00] = Inl URIError"
proof -
  have "well_formed [0xD83D, 0xDE00, 0x20]" "\<not> well_formed [0xDE00]"
    by (simp_all add: is_lead_def is_trail_def)
  then show ?thesis
    using base64_roundtrip [of "[0xD83D, 0xDE00, 0x20]"] base64_roundtrip [of "[0xDE00]"] by blast
qed

lemma strToBase64_hello: "strToBase64 (str ''hello'') = Inr (str ''aGVsbG8='')"
  by (simp add: strToBase64_def btoa_def uri_unescaped_def is_alnum_def str_def base64_char_def
      prepend_def)

end
